theory Spec2Isabelle
  imports Main "HOL-Library.Word" "HOL-Library.Signed_Division"
begin

unbundle bit_operations_syntax

section \<open>The SPD5118 driver (spd5118.c) as HOL functions\<close>

text \<open>
  C integer types are words of their width: \<open>u8\<close>, \<open>u16\<close> and \<open>u32\<close> are unsigned,
  \<open>s32\<close> is a C \<open>int\<close> (read with \<open>sint\<close>), \<open>s64\<close> a C \<open>long\<close>. Return codes of
  the kernel API (0 or a negative errno, or a byte count) are kept as \<open>int\<close>.
\<close>

type_synonym u8 = "8 word"
type_synonym u16 = "16 word"
type_synonym u32 = "32 word"
type_synonym s32 = "32 word"
type_synonym s64 = "64 word"

subsection \<open>Constants of the driver\<close>

definition SPD5118_REG_I2C_LEGACY_MODE :: u8 where "SPD5118_REG_I2C_LEGACY_MODE = 0x0B"
definition SPD5118_REG_TEMP_CLR :: u8 where "SPD5118_REG_TEMP_CLR = 0x13"
definition SPD5118_REG_TEMP_MAX :: u8 where "SPD5118_REG_TEMP_MAX = 0x1c"
definition SPD5118_REG_TEMP_MIN :: u8 where "SPD5118_REG_TEMP_MIN = 0x1e"
definition SPD5118_REG_TEMP_CRIT :: u8 where "SPD5118_REG_TEMP_CRIT = 0x20"
definition SPD5118_REG_TEMP_LCRIT :: u8 where "SPD5118_REG_TEMP_LCRIT = 0x22"
definition SPD5118_REG_TEMP :: u8 where "SPD5118_REG_TEMP = 0x31"
definition SPD5118_REG_TEMP_STATUS :: u8 where "SPD5118_REG_TEMP_STATUS = 0x33"

definition SPD5118_TEMP_STATUS_HIGH :: s32 where "SPD5118_TEMP_STATUS_HIGH = push_bit 0 1"
definition SPD5118_TEMP_STATUS_LOW :: s32 where "SPD5118_TEMP_STATUS_LOW = push_bit 1 1"
definition SPD5118_TEMP_STATUS_CRIT :: s32 where "SPD5118_TEMP_STATUS_CRIT = push_bit 2 1"
definition SPD5118_TEMP_STATUS_LCRIT :: s32 where "SPD5118_TEMP_STATUS_LCRIT = push_bit 3 1"

definition SPD5118_TEMP_CLR_HIGH :: u8 where "SPD5118_TEMP_CLR_HIGH = push_bit 0 1"
definition SPD5118_TEMP_CLR_LOW :: u8 where "SPD5118_TEMP_CLR_LOW = push_bit 1 1"
definition SPD5118_TEMP_CLR_CRIT :: u8 where "SPD5118_TEMP_CLR_CRIT = push_bit 2 1"
definition SPD5118_TEMP_CLR_LCRIT :: u8 where "SPD5118_TEMP_CLR_LCRIT = push_bit 3 1"

definition SPD5118_PAGE_SIZE :: nat where "SPD5118_PAGE_SIZE = 128"
definition SPD5118_PAGE_SHIFT :: nat where "SPD5118_PAGE_SHIFT = 7"
definition SPD5118_EEPROM_BASE :: nat where "SPD5118_EEPROM_BASE = 0x80"

definition SPD5118_TEMP_UNIT :: s32 where "SPD5118_TEMP_UNIT = 250"
definition SPD5118_TEMP_RANGE_MIN :: s32 where "SPD5118_TEMP_RANGE_MIN = - 256000"
definition SPD5118_TEMP_RANGE_MAX :: s32 where "SPD5118_TEMP_RANGE_MAX = 255750"

text \<open>Error numbers of the kernel (\<open>errno-base.h\<close>, \<open>errno.h\<close>).\<close>

definition EINVAL :: int where "EINVAL = 22"
definition EOPNOTSUPP :: int where "EOPNOTSUPP = 95"

subsection \<open>Helpers of the compiler and of the kernel headers\<close>

text \<open>
  \<open>__builtin_parity(x)\<close> of GCC: the number of 1-bits of the \<open>unsigned int\<close> \<open>x\<close>,
  modulo 2.
\<close>

definition builtin_parity :: "u32 \<Rightarrow> bool" where
  "builtin_parity x = odd (length (filter (bit x) [0..<32]))"

text \<open>
  \<open>sign_extend32(value, index)\<close> of \<open>linux/bitops.h\<close>:
  \<^verbatim>\<open>__u8 shift = 31 - index; return (__s32)(value << shift) >> shift;\<close>
  The bit numbered \<open>index\<close> is the sign bit.
\<close>

definition sign_extend32 :: "u32 \<Rightarrow> nat \<Rightarrow> s32" where
  "sign_extend32 v index =
     (let shift = (31 - index) mod 256 in signed_drop_bit shift (push_bit shift v))"

text \<open>
  \<open>clamp_val(val, lo, hi)\<close> of \<open>linux/minmax.h\<close> at type \<open>int\<close>:
  \<open>min(max(val, lo), hi)\<close> with signed comparisons.
\<close>

definition clamp_val :: "s32 \<Rightarrow> s32 \<Rightarrow> s32 \<Rightarrow> s32" where
  "clamp_val v lo hi =
     (let m = (if lo <s v then v else lo) in if m <s hi then m else hi)"

text \<open>C's \<open>/\<close> on \<open>int\<close>: the quotient is truncated towards zero.\<close>

definition c_sdiv32 :: "s32 \<Rightarrow> s32 \<Rightarrow> s32" where
  "c_sdiv32 a b = word_of_int (sint a sdiv sint b)"

subsection \<open>Vendor validation\<close>

definition spd5118_vendor_valid :: "u16 \<Rightarrow> bool" where
  "spd5118_vendor_valid reg =
     (let pfx = (ucast (reg AND 0xff) :: u8);
          id = (ucast (drop_bit 8 reg) :: u8)
      in if \<not> builtin_parity (ucast pfx) \<or> \<not> builtin_parity (ucast id) then False
         else let id = id AND 0x7f
              in if id = 0 \<or> id = 0x7f then False else True)"

subsection \<open>Temperature codec\<close>

text \<open>
  \<^verbatim>\<open>reg = sign_extend32(reg >> 2, 11); return reg * SPD5118_TEMP_UNIT;\<close>
  The parameter \<open>reg\<close> is a \<open>u16\<close>: the result of \<open>sign_extend32\<close> is stored back into
  it, truncated to 16 bits, and promoted to \<open>int\<close> for the multiplication.
\<close>

definition spd5118_temp_from_reg :: "u16 \<Rightarrow> s32" where
  "spd5118_temp_from_reg reg0 =
     (let reg = (ucast (sign_extend32 (drop_bit 2 (ucast reg0 :: u32)) 11) :: u16)
      in (ucast reg :: s32) * SPD5118_TEMP_UNIT)"

definition spd5118_temp_to_reg :: "s32 \<Rightarrow> u16" where
  "spd5118_temp_to_reg temp0 =
     (let temp = clamp_val temp0 SPD5118_TEMP_RANGE_MIN SPD5118_TEMP_RANGE_MAX
      in ucast (push_bit 2 (c_sdiv32 temp SPD5118_TEMP_UNIT AND 0x7ff)))"

subsection \<open>Module parameters and per-client data\<close>

record module_params =
  enable_temp_write :: bool
  enable_alarm_write :: bool

text \<open>
  \<open>struct spd5118_data\<close>. The mutex \<open>update_lock\<close> is not a field: the functions of
  the next subsections run one call at a time and leave \<open>mutex_lock\<close> and
  \<open>mutex_unlock\<close> out; the subsection on mutex events has the calls with them.
\<close>

record spd5118_data =
  current_page :: int
  vendor :: u16
  revision :: u8

text \<open>
  The sensor types and the temperature attributes of \<open>linux/hwmon.h\<close>. The attributes
  the driver never names reach the \<open>default\<close> branch of its switches; they are
  \<open>hwmon_temp_other\<close>.
\<close>

datatype hwmon_sensor_types =
  hwmon_chip | hwmon_temp | hwmon_in | hwmon_curr | hwmon_power | hwmon_energy
  | hwmon_humidity | hwmon_fan | hwmon_pwm | hwmon_intrusion

datatype hwmon_temp_attributes =
  hwmon_temp_input | hwmon_temp_max | hwmon_temp_min | hwmon_temp_crit | hwmon_temp_lcrit
  | hwmon_temp_max_alarm | hwmon_temp_min_alarm | hwmon_temp_crit_alarm
  | hwmon_temp_lcrit_alarm | hwmon_temp_other

subsection \<open>The SMBus transport and the device behind it\<close>

text \<open>
  Modelled from the spec: the bus transport and the chip are outside the driver. The
  model keeps what the driver's calls can observe: the flat EEPROM (\<open>eeprom\<close>, bytes
  0..1023), the page-select register as last written (\<open>page_reg\<close>), the largest block
  one block read transfers (\<open>block_max\<close>; \<open>I2C_SMBUS_BLOCK_MAX\<close> is 32 in the kernel),
  the transactions issued so far (\<open>trace\<close>), and for the transaction numbered \<open>k\<close> its
  result code \<open>fault k\<close>: a negative value is the errno that transaction fails with,
  any other value lets it succeed.
\<close>

datatype smbus_op =
  Write_Byte_Data u8 u8
  | Write_Word_Data u8 u16
  | Read_Block_Data u8 u8
  | Read_Byte_Data u8
  | Read_Word_Data u8

record smbus =
  eeprom :: "nat \<Rightarrow> u8"
  page_reg :: u8
  block_max :: nat
  fault :: "nat \<Rightarrow> int"
  trace :: "smbus_op list"

definition smbus_xfer :: "smbus \<Rightarrow> smbus_op \<Rightarrow> int \<times> smbus" where
  "smbus_xfer b op = (fault b (length (trace b)), b\<lparr>trace := trace b @ [op]\<rparr>)"

text \<open>The transactions a call added to the trace.\<close>

definition issued :: "smbus \<Rightarrow> smbus \<Rightarrow> smbus_op list" where
  "issued b b' = drop (length (trace b)) (trace b')"

text \<open>The page the chip shows in its window: bits 2..0 of the page-select register.\<close>

definition hw_page :: "smbus \<Rightarrow> nat" where
  "hw_page b = unat (page_reg b AND 7)"

text \<open>
  The byte the chip returns for register address \<open>a\<close>: addresses 0x80..0xff are the
  128-byte window onto the selected page. The mode registers below 0x80 and addresses
  past the window read as 0 here.
\<close>

definition window_byte :: "smbus \<Rightarrow> nat \<Rightarrow> u8" where
  "window_byte b a =
     (if 128 \<le> a \<and> a < 256 then eeprom b (hw_page b * 128 + (a - 128)) else 0)"

definition i2c_smbus_write_byte_data :: "smbus \<Rightarrow> u8 \<Rightarrow> u8 \<Rightarrow> int \<times> smbus" where
  "i2c_smbus_write_byte_data b command val =
     (let (r, b1) = smbus_xfer b (Write_Byte_Data command val)
      in if r < 0 then (r, b1)
         else (0, if command = SPD5118_REG_I2C_LEGACY_MODE then b1\<lparr>page_reg := val\<rparr> else b1))"

definition i2c_smbus_write_word_data :: "smbus \<Rightarrow> u8 \<Rightarrow> u16 \<Rightarrow> int \<times> smbus" where
  "i2c_smbus_write_word_data b command val =
     (let (r, b1) = smbus_xfer b (Write_Word_Data command val)
      in if r < 0 then (r, b1) else (0, b1))"

text \<open>
  Register reads return a negative errno or the value read. The mode registers have no
  contents in this model: for a read that succeeds the value is the transaction's
  result code, reduced to the width of the transfer, so it can be any byte or word.
\<close>

definition i2c_smbus_read_byte_data :: "smbus \<Rightarrow> u8 \<Rightarrow> int \<times> smbus" where
  "i2c_smbus_read_byte_data b command =
     (let (r, b1) = smbus_xfer b (Read_Byte_Data command)
      in if r < 0 then (r, b1) else (r mod 2 ^ 8, b1))"

definition i2c_smbus_read_word_data :: "smbus \<Rightarrow> u8 \<Rightarrow> int \<times> smbus" where
  "i2c_smbus_read_word_data b command =
     (let (r, b1) = smbus_xfer b (Read_Word_Data command)
      in if r < 0 then (r, b1) else (r mod 2 ^ 16, b1))"

text \<open>
  The block read returns the number of bytes transferred and the bytes; on failure the
  errno and no bytes.
\<close>

definition i2c_smbus_read_i2c_block_data_or_emulated ::
    "smbus \<Rightarrow> u8 \<Rightarrow> u8 \<Rightarrow> (int \<times> u8 list) \<times> smbus" where
  "i2c_smbus_read_i2c_block_data_or_emulated b command len =
     (let (r, b1) = smbus_xfer b (Read_Block_Data command len);
          n = min (unat len) (block_max b1)
      in if r < 0 then ((r, []), b1)
         else ((int n, map (\<lambda>i. window_byte b1 (unat command + i)) [0..<n]), b1))"

subsection \<open>Threshold writes and alarm clearing\<close>

text \<open>The switch of \<open>spd5118_write_temp\<close>; \<open>None\<close> is its \<open>default\<close> branch.\<close>

fun temp_reg_of_attr :: "hwmon_temp_attributes \<Rightarrow> u8 option" where
  "temp_reg_of_attr hwmon_temp_max = Some SPD5118_REG_TEMP_MAX"
| "temp_reg_of_attr hwmon_temp_min = Some SPD5118_REG_TEMP_MIN"
| "temp_reg_of_attr hwmon_temp_crit = Some SPD5118_REG_TEMP_CRIT"
| "temp_reg_of_attr hwmon_temp_lcrit = Some SPD5118_REG_TEMP_LCRIT"
| "temp_reg_of_attr _ = None"

text \<open>
  \<open>val\<close> is a \<open>long\<close>; the call \<open>spd5118_temp_to_reg(val)\<close> converts it to \<open>int\<close>,
  keeping its low 32 bits.
\<close>

definition spd5118_write_temp ::
    "module_params \<Rightarrow> smbus \<Rightarrow> hwmon_temp_attributes \<Rightarrow> s64 \<Rightarrow> int \<times> smbus" where
  "spd5118_write_temp p b attr val =
     (if \<not> enable_temp_write p then (- EOPNOTSUPP, b)
      else case temp_reg_of_attr attr of
          None \<Rightarrow> (- EOPNOTSUPP, b)
        | Some reg \<Rightarrow>
            let regval = spd5118_temp_to_reg (ucast val)
            in i2c_smbus_write_word_data b reg regval)"

text \<open>The switch of \<open>spd5118_clear_alarm\<close>; \<open>None\<close> is its \<open>default\<close> branch.\<close>

fun clr_bit_of_attr :: "hwmon_temp_attributes \<Rightarrow> u8 option" where
  "clr_bit_of_attr hwmon_temp_max_alarm = Some SPD5118_TEMP_CLR_HIGH"
| "clr_bit_of_attr hwmon_temp_min_alarm = Some SPD5118_TEMP_CLR_LOW"
| "clr_bit_of_attr hwmon_temp_crit_alarm = Some SPD5118_TEMP_CLR_CRIT"
| "clr_bit_of_attr hwmon_temp_lcrit_alarm = Some SPD5118_TEMP_CLR_LCRIT"
| "clr_bit_of_attr _ = None"

definition spd5118_clear_alarm ::
    "module_params \<Rightarrow> smbus \<Rightarrow> hwmon_temp_attributes \<Rightarrow> int \<times> smbus" where
  "spd5118_clear_alarm p b attr =
     (if \<not> enable_alarm_write p then (- EOPNOTSUPP, b)
      else case clr_bit_of_attr attr of
          None \<Rightarrow> (- EOPNOTSUPP, b)
        | Some regval \<Rightarrow> i2c_smbus_write_byte_data b SPD5118_REG_TEMP_CLR regval)"

definition spd5118_write ::
    "module_params \<Rightarrow> smbus \<Rightarrow> hwmon_sensor_types \<Rightarrow> hwmon_temp_attributes \<Rightarrow> int \<Rightarrow> s64
      \<Rightarrow> int \<times> smbus" where
  "spd5118_write p b type attr channel val =
     (if type \<noteq> hwmon_temp then (- EOPNOTSUPP, b)
      else if attr = hwmon_temp_max \<or> attr = hwmon_temp_min \<or> attr = hwmon_temp_crit
              \<or> attr = hwmon_temp_lcrit
        then spd5118_write_temp p b attr val
      else if attr = hwmon_temp_max_alarm \<or> attr = hwmon_temp_min_alarm
              \<or> attr = hwmon_temp_crit_alarm \<or> attr = hwmon_temp_lcrit_alarm
        then (if val \<noteq> 0 then (- EINVAL, b) else spd5118_clear_alarm p b attr)
      else (- EOPNOTSUPP, b))"

subsection \<open>Paged EEPROM access\<close>

text \<open>\<open>page\<close> is an \<open>int\<close>; the bus write takes it as a \<open>u8\<close>.\<close>

definition spd5118_set_current_page ::
    "spd5118_data \<Rightarrow> smbus \<Rightarrow> int \<Rightarrow> int \<times> spd5118_data \<times> smbus" where
  "spd5118_set_current_page d b page =
     (if page = current_page d then (0, d, b)
      else
        let (ret, b1) = i2c_smbus_write_byte_data b SPD5118_REG_I2C_LEGACY_MODE (word_of_int page)
        in if ret < 0 then (ret, d, b1)
           else (0, d\<lparr>current_page := page\<rparr>, b1))"

text \<open>
  \<open>offset\<close> is an \<open>unsigned int\<close> (below \<open>2 ^ 32\<close>) and \<open>count\<close> a \<open>size_t\<close> (below
  \<open>2 ^ 64\<close>); the sum \<open>offset + count\<close> is computed in \<open>size_t\<close>. The block read takes
  the register address and the length as \<open>u8\<close>. The result is the status (bytes read,
  or a negative errno) with the bytes stored at \<open>buf\<close>.
\<close>

definition spd5118_eeprom_read ::
    "spd5118_data \<Rightarrow> smbus \<Rightarrow> nat \<Rightarrow> nat \<Rightarrow> (int \<times> u8 list) \<times> spd5118_data \<times> smbus" where
  "spd5118_eeprom_read d b offset0 count0 =
     (let page = int (offset0 div 2 ^ SPD5118_PAGE_SHIFT);
          offset = offset0 mod 2 ^ SPD5118_PAGE_SHIFT;
          (status, d1, b1) = spd5118_set_current_page d b page
      in if status \<noteq> 0 then ((status, []), d1, b1)
         else
           let count = (if (offset + count0) mod 2 ^ 64 > SPD5118_PAGE_SIZE
                        then SPD5118_PAGE_SIZE - offset else count0);
               (r, b2) = i2c_smbus_read_i2c_block_data_or_emulated b1
                           (of_nat (SPD5118_EEPROM_BASE + offset)) (of_nat count)
           in (r, d1, b2))"

text \<open>
  The loop of \<open>eeprom_read\<close>, with fuel: the C loop runs for as long as \<open>count\<close> is not
  0, which is for ever if the transport keeps returning 0 bytes; \<open>None\<close> is the model
  running out of fuel. \<open>buf\<close> holds the bytes stored so far (the C pointer \<open>buf\<close>
  advances by \<open>ret\<close>), \<open>off\<close> is a \<open>loff_t\<close> converted to \<open>unsigned int\<close> at the call,
  and \<open>count -= ret\<close> wraps in \<open>size_t\<close>.
\<close>

fun eeprom_read_loop ::
    "nat \<Rightarrow> spd5118_data \<Rightarrow> smbus \<Rightarrow> u8 list \<Rightarrow> nat \<Rightarrow> nat \<Rightarrow> int
      \<Rightarrow> (int \<times> u8 list \<times> spd5118_data \<times> smbus) option" where
  "eeprom_read_loop fuel d b buf off count ret =
     (if count = 0 then Some (ret, buf, d, b)
      else case fuel of
          0 \<Rightarrow> None
        | Suc fuel' \<Rightarrow>
            (case spd5118_eeprom_read d b (off mod 2 ^ 32) count of
               ((ret', bytes), d1, b1) \<Rightarrow>
                 if ret' < 0 then Some (ret', buf, d1, b1)
                 else eeprom_read_loop fuel' d1 b1 (buf @ bytes) (off + nat ret')
                        ((count + 2 ^ 64 - nat ret') mod 2 ^ 64) ret'))"

definition eeprom_read ::
    "nat \<Rightarrow> spd5118_data \<Rightarrow> smbus \<Rightarrow> nat \<Rightarrow> nat
      \<Rightarrow> (int \<times> u8 list \<times> spd5118_data \<times> smbus) option" where
  "eeprom_read fuel d b off count =
     (let requested = count
      in case eeprom_read_loop fuel d b [] off count 0 of
          None \<Rightarrow> None
        | Some (ret, buf, d1, b1) \<Rightarrow> Some (if ret < 0 then ret else int requested, buf, d1, b1))"

subsection \<open>The calls with their mutex events\<close>

text \<open>
  The five calls that talk to the bus, with \<open>mutex_lock\<close> and \<open>mutex_unlock\<close> kept
  where the source has them. Each returns, next to its result, the events of the call
  in order: taking the mutex, releasing it, and every bus transaction a transport call
  issued in between (read off the trace). A return before \<open>mutex_lock\<close> has no event.
\<close>

datatype event = Lock | Unlock | Bus smbus_op

definition mutex_lock :: "event list \<Rightarrow> event list" where
  "mutex_lock ev = ev @ [Lock]"

definition mutex_unlock :: "event list \<Rightarrow> event list" where
  "mutex_unlock ev = ev @ [Unlock]"

definition bus_events :: "smbus \<Rightarrow> smbus \<Rightarrow> event list \<Rightarrow> event list" where
  "bus_events b b' ev = ev @ map Bus (issued b b')"

text \<open>
  The switch of \<open>spd5118_read_temp\<close>; \<open>None\<close> is its \<open>default\<close> branch. \<open>regval\<close> is an
  \<open>int\<close> passed as \<open>u16\<close> to the decoder, whose \<open>int\<close> result is stored in the \<open>long\<close>
  \<open>*val\<close>; \<open>None\<close> is \<open>*val\<close> left unwritten.
\<close>

fun temp_in_reg_of_attr :: "hwmon_temp_attributes \<Rightarrow> u8 option" where
  "temp_in_reg_of_attr hwmon_temp_input = Some SPD5118_REG_TEMP"
| "temp_in_reg_of_attr hwmon_temp_max = Some SPD5118_REG_TEMP_MAX"
| "temp_in_reg_of_attr hwmon_temp_min = Some SPD5118_REG_TEMP_MIN"
| "temp_in_reg_of_attr hwmon_temp_crit = Some SPD5118_REG_TEMP_CRIT"
| "temp_in_reg_of_attr hwmon_temp_lcrit = Some SPD5118_REG_TEMP_LCRIT"
| "temp_in_reg_of_attr _ = None"

definition spd5118_read_temp_ev ::
    "smbus \<Rightarrow> hwmon_temp_attributes \<Rightarrow> (int \<times> s64 option \<times> smbus) \<times> event list" where
  "spd5118_read_temp_ev b attr =
     (case temp_in_reg_of_attr attr of
        None \<Rightarrow> ((- EOPNOTSUPP, None, b), [])
      | Some reg \<Rightarrow>
          let ev = mutex_lock [];
              (regval, b1) = i2c_smbus_read_word_data b reg;
              ev = bus_events b b1 ev;
              ev = mutex_unlock ev
          in if regval < 0 then ((regval, None, b1), ev)
             else ((0, Some (scast (spd5118_temp_from_reg (word_of_int regval))), b1), ev))"

definition spd5118_write_temp_ev ::
    "module_params \<Rightarrow> smbus \<Rightarrow> hwmon_temp_attributes \<Rightarrow> s64 \<Rightarrow> (int \<times> smbus) \<times> event list" where
  "spd5118_write_temp_ev p b attr val =
     (if \<not> enable_temp_write p then ((- EOPNOTSUPP, b), [])
      else case temp_reg_of_attr attr of
          None \<Rightarrow> ((- EOPNOTSUPP, b), [])
        | Some reg \<Rightarrow>
            let regval = spd5118_temp_to_reg (ucast val);
                ev = mutex_lock [];
                (ret, b1) = i2c_smbus_write_word_data b reg regval;
                ev = bus_events b b1 ev;
                ev = mutex_unlock ev
            in ((ret, b1), ev))"

text \<open>
  The switch of \<open>spd5118_read_alarm\<close>; the value stored is \<open>!!(regval & mask)\<close>.
\<close>

fun status_mask_of_attr :: "hwmon_temp_attributes \<Rightarrow> s32 option" where
  "status_mask_of_attr hwmon_temp_max_alarm = Some SPD5118_TEMP_STATUS_HIGH"
| "status_mask_of_attr hwmon_temp_min_alarm = Some SPD5118_TEMP_STATUS_LOW"
| "status_mask_of_attr hwmon_temp_crit_alarm = Some SPD5118_TEMP_STATUS_CRIT"
| "status_mask_of_attr hwmon_temp_lcrit_alarm = Some SPD5118_TEMP_STATUS_LCRIT"
| "status_mask_of_attr _ = None"

definition spd5118_read_alarm_ev ::
    "smbus \<Rightarrow> hwmon_temp_attributes \<Rightarrow> (int \<times> s64 option \<times> smbus) \<times> event list" where
  "spd5118_read_alarm_ev b attr =
     (case status_mask_of_attr attr of
        None \<Rightarrow> ((- EOPNOTSUPP, None, b), [])
      | Some msk \<Rightarrow>
          let ev = mutex_lock [];
              (regval, b1) = i2c_smbus_read_byte_data b SPD5118_REG_TEMP_STATUS;
              ev = bus_events b b1 ev;
              ev = mutex_unlock ev
          in if regval < 0 then ((regval, None, b1), ev)
             else ((0, Some (if (word_of_int regval :: s32) AND msk \<noteq> 0 then 1 else 0), b1), ev))"

definition spd5118_clear_alarm_ev ::
    "module_params \<Rightarrow> smbus \<Rightarrow> hwmon_temp_attributes \<Rightarrow> (int \<times> smbus) \<times> event list" where
  "spd5118_clear_alarm_ev p b attr =
     (if \<not> enable_alarm_write p then ((- EOPNOTSUPP, b), [])
      else case clr_bit_of_attr attr of
          None \<Rightarrow> ((- EOPNOTSUPP, b), [])
        | Some regval \<Rightarrow>
            let ev = mutex_lock [];
                (ret, b1) = i2c_smbus_write_byte_data b SPD5118_REG_TEMP_CLR regval;
                ev = bus_events b b1 ev;
                ev = mutex_unlock ev
            in ((ret, b1), ev))"

text \<open>
  \<open>eeprom_read\<close> takes the mutex, runs its loop, and releases the mutex at \<open>out:\<close>,
  which the loop's error exit jumps to.
\<close>

definition eeprom_read_ev ::
    "nat \<Rightarrow> spd5118_data \<Rightarrow> smbus \<Rightarrow> nat \<Rightarrow> nat
      \<Rightarrow> ((int \<times> u8 list \<times> spd5118_data \<times> smbus) \<times> event list) option" where
  "eeprom_read_ev fuel d b off count =
     (let requested = count;
          ev = mutex_lock []
      in case eeprom_read_loop fuel d b [] off count 0 of
          None \<Rightarrow> None
        | Some (ret, buf, d1, b1) \<Rightarrow>
            let ev = bus_events b b1 ev;
                ev = mutex_unlock ev
            in Some ((if ret < 0 then ret else int requested, buf, d1, b1), ev))"

subsection \<open>Notions used by the statements\<close>

text \<open>
  The cached page is coherent with the chip: a cached page number 0..7 is the page the
  chip shows. Any other cached value (such as the initial -1) equals no requested page.
\<close>

definition page_cache_ok :: "spd5118_data \<Rightarrow> smbus \<Rightarrow> bool" where
  "page_cache_ok d b =
     (if 0 \<le> current_page d \<and> current_page d < 8 then hw_page b = nat (current_page d) else True)"

text \<open>
  A transaction stays inside the page: a block read covers register addresses within
  the window 0x80..0xff only.
\<close>

fun within_page :: "smbus_op \<Rightarrow> bool" where
  "within_page (Read_Block_Data c n) = (128 \<le> unat c \<and> unat c + unat n \<le> 256)"
| "within_page _ = True"

text \<open>
  A run of the bus from state \<open>b\<close> to state \<open>b'\<close> that ended with the result \<open>r\<close>: the
  chip's memory and the transport are the same, the transactions added to the trace stay
  inside the page, and every added transaction succeeded, except for the last one when
  \<open>r\<close> is negative: then \<open>r\<close> is the code that one failed with.
\<close>

definition bus_run :: "smbus \<Rightarrow> smbus \<Rightarrow> int \<Rightarrow> bool" where
  "bus_run b b' r \<longleftrightarrow>
     eeprom b' = eeprom b \<and> block_max b' = block_max b \<and> fault b' = fault b \<and>
     (\<exists>ops. trace b' = trace b @ ops \<and> (\<forall>op \<in> set ops. within_page op)) \<and>
     (if r < 0
      then length (trace b) < length (trace b') \<and> r = fault b (length (trace b') - 1) \<and>
           (\<forall>k. length (trace b) \<le> k \<and> k < length (trace b') - 1 \<longrightarrow> 0 \<le> fault b k)
      else (\<forall>k. length (trace b) \<le> k \<and> k < length (trace b') \<longrightarrow> 0 \<le> fault b k))"

text \<open>
  The decomposition as the spec describes it (sections 4.3 and 4.4), apart from the
  code: a read of \<open>count\<close> bytes at \<open>off\<close> is a list of primitive reads, each at its
  offset, asking for \<open>min count (128 - off mod 128)\<close> bytes and transferring at most
  \<open>bm\<close> of them, the next one starting where the transfer ended.
\<close>

function spec_page_reads :: "nat \<Rightarrow> nat \<Rightarrow> nat \<Rightarrow> (nat \<times> nat \<times> nat) list" where
  "spec_page_reads bm off count =
     (if count = 0 \<or> bm = 0 then []
      else let len = min count (128 - off mod 128);
               n = min len bm
           in (off, len, n) # spec_page_reads bm (off + n) (count - n))"
  by pat_completeness auto
termination
proof (relation "measure (\<lambda>(bm, off, count). count)")
  show "wf (measure (\<lambda>(bm, off, count). count))" by simp
next
  fix bm off count :: nat and len n
  assume a: "\<not> (count = 0 \<or> bm = 0)" "len = min count (128 - off mod 128)" "n = min len bm"
  have "off mod 128 < 128" by simp
  then have "0 < n" using a by simp
  then show "((bm, off + n, count - n), (bm, off, count)) \<in> measure (\<lambda>(bm, off, count). count)"
    using a by simp
qed

declare spec_page_reads.simps [simp del]

text \<open>
  The transactions of such a list when the cached page is \<open>cp\<close>: a page select before
  a read whose page is not the cached one, then the block read at the window base plus
  the offset within the page.
\<close>

fun spec_read_ops :: "int \<Rightarrow> (nat \<times> nat \<times> nat) list \<Rightarrow> smbus_op list" where
  "spec_read_ops cp [] = []"
| "spec_read_ops cp ((off, len, n) # rs) =
     (if int (off div 128) = cp then []
      else [Write_Byte_Data SPD5118_REG_I2C_LEGACY_MODE (of_nat (off div 128))])
     @ Read_Block_Data (of_nat (128 + off mod 128)) (of_nat len)
     # spec_read_ops (int (off div 128)) rs"

text \<open>
  The bytes one primitive read transfers: what the window shows at its addresses once
  the read's page is selected.
\<close>

definition spec_chunk_bytes :: "smbus \<Rightarrow> nat \<times> nat \<times> nat \<Rightarrow> u8 list" where
  "spec_chunk_bytes b = (\<lambda>(off, len, n).
     map (\<lambda>i. window_byte (b\<lparr>page_reg := of_nat (off div 128)\<rparr>) (128 + off mod 128 + i)) [0..<n])"

text \<open>
  Lock discipline of one call's events: no event at all, or \<open>Lock\<close>, bus transactions
  only, \<open>Unlock\<close>. \<open>locked_call\<close> adds that the bus transactions between the two are
  the ones the call issued, all of them.
\<close>

fun in_section :: "event list \<Rightarrow> bool" where
  "in_section [] = False"
| "in_section (Unlock # es) = (es = [])"
| "in_section (Bus op # es) = in_section es"
| "in_section (Lock # es) = False"

fun well_locked :: "event list \<Rightarrow> bool" where
  "well_locked [] = True"
| "well_locked (Lock # es) = in_section es"
| "well_locked (e # es) = False"

definition locked_call :: "smbus \<Rightarrow> smbus \<Rightarrow> event list \<Rightarrow> bool" where
  "locked_call b b' ev \<longleftrightarrow>
     trace b' = trace b @ issued b b' \<and>
     ((ev = [] \<and> issued b b' = []) \<or> ev = Lock # map Bus (issued b b') @ [Unlock])"

text \<open>
  A schedule of two concurrent calls is a list of their events, each tagged with its
  call; \<open>events_of\<close> gives one call's events back. The schedule respects the mutex
  (\<open>mutex_ok\<close>, started with no holder) when a \<open>Lock\<close> happens only while nobody holds
  the mutex and an \<open>Unlock\<close> only by its holder. It is serial when one call's events all
  come before the other's.
\<close>

definition events_of :: "bool \<Rightarrow> (bool \<times> event) list \<Rightarrow> event list" where
  "events_of t s = map snd (filter (\<lambda>x. fst x = t) s)"

fun mutex_ok :: "bool option \<Rightarrow> (bool \<times> event) list \<Rightarrow> bool" where
  "mutex_ok h [] = True"
| "mutex_ok h ((t, Lock) # s) = (h = None \<and> mutex_ok (Some t) s)"
| "mutex_ok h ((t, Unlock) # s) = (h = Some t \<and> mutex_ok None s)"
| "mutex_ok h ((t, Bus op) # s) = mutex_ok h s"

definition serial :: "event list \<Rightarrow> event list \<Rightarrow> (bool \<times> event) list \<Rightarrow> bool" where
  "serial ev1 ev2 s \<longleftrightarrow>
     s = map (Pair True) ev1 @ map (Pair False) ev2 \<or>
     s = map (Pair False) ev2 @ map (Pair True) ev1"

subsection \<open>Example states\<close>

text \<open>
  A chip whose EEPROM byte \<open>i\<close> holds \<open>i mod 256\<close>, with page 3 selected, behind a
  transport that never fails (\<open>demo_bus\<close>) or fails every transaction with \<open>-EIO\<close>
  (\<open>faulty_bus\<close>); a client whose cached page is 3.
\<close>

definition demo_bus :: smbus where
  "demo_bus = \<lparr>eeprom = (\<lambda>i. of_nat i), page_reg = 3, block_max = 32, fault = (\<lambda>k. 0), trace = []\<rparr>"

definition faulty_bus :: smbus where
  "faulty_bus = \<lparr>eeprom = (\<lambda>i. of_nat i), page_reg = 3, block_max = 32, fault = (\<lambda>k. - 5), trace = []\<rparr>"

definition demo_data :: spd5118_data where
  "demo_data = \<lparr>current_page = 3, vendor = 0x8A01, revision = 0x11\<rparr>"

section \<open>Vendor validation\<close>

lemma builtin_parity_card: "builtin_parity x = odd (card {n. n < 32 \<and> bit x n})"
proof -
  have "length (filter (bit x) [0..<32]) = card {i. i < 32 \<and> bit x i}"
    by (simp add: length_filter_conv_card cong: conj_cong)
  then show ?thesis by (simp add: builtin_parity_def)
qed

lemma byte_masks: "(0xff :: u16) = mask 8" "(0x7f :: u8) = mask 7"
  by (simp_all add: mask_eq_exp_minus_1)

lemma parity_pfx:
  "builtin_parity (ucast (ucast (reg AND 0xff :: u16) :: u8)) = odd (card {n. n < 8 \<and> bit reg n})"
proof -
  have "{n. n < 32 \<and> bit (ucast (ucast (reg AND 0xff :: u16) :: u8) :: u32) n}
          = {n. n < 8 \<and> bit reg n}"
    unfolding byte_masks by (auto simp: bit_simps)
  then show ?thesis by (simp add: builtin_parity_card)
qed

lemma parity_id:
  "builtin_parity (ucast (ucast (drop_bit 8 (reg :: u16)) :: u8))
     = odd (card {n. 8 \<le> n \<and> n < 16 \<and> bit reg n})"
proof -
  let ?low = "{n. n < 8 \<and> bit reg (8 + n)}"
  have "{n. n < 32 \<and> bit (ucast (ucast (drop_bit 8 reg) :: u8) :: u32) n} = ?low"
    by (auto simp: bit_simps)
  moreover have "{n. 8 \<le> n \<and> n < 16 \<and> bit reg n} = (\<lambda>n. 8 + n) ` ?low"
  proof (rule set_eqI)
    fix m
    show "m \<in> {n. 8 \<le> n \<and> n < 16 \<and> bit reg n} \<longleftrightarrow> m \<in> (\<lambda>n. 8 + n) ` ?low"
    proof
      assume "m \<in> {n. 8 \<le> n \<and> n < 16 \<and> bit reg n}"
      then have "m - 8 \<in> ?low" "m = 8 + (m - 8)" by auto
      then show "m \<in> (\<lambda>n. 8 + n) ` ?low" by (rule rev_image_eqI)
    qed auto
  qed
  moreover have "card ((\<lambda>n. 8 + n) ` ?low) = card ?low"
    by (rule card_image) (simp add: inj_on_def)
  ultimately show ?thesis by (simp add: builtin_parity_card)
qed

lemma masked_id_unat:
  "unat ((ucast (drop_bit 8 (reg :: u16)) :: u8) AND 0x7f) = (unat reg div 256) mod 128"
proof -
  have "unat ((ucast (drop_bit 8 reg) :: u8) AND mask 7) =
          take_bit 7 (take_bit LENGTH(8) (drop_bit 8 (take_bit LENGTH(16) (unat reg))))"
    by (simp only: take_bit_eq_mask [symmetric] unsigned_take_bit_eq unsigned_ucast_eq
          unsigned_drop_bit_eq)
  moreover have "unat reg < 65536"
    using unsigned_less [of reg, where ?'a = nat] by simp
  ultimately show ?thesis
    by (simp add: byte_masks take_bit_eq_mod drop_bit_eq_div mod_mod_cancel)
qed

lemma masked_id_cases:
  "(ucast (drop_bit 8 (reg :: u16)) :: u8) AND 0x7f = 0 \<longleftrightarrow> (unat reg div 256) mod 128 = 0"
  "(ucast (drop_bit 8 (reg :: u16)) :: u8) AND 0x7f = 0x7f \<longleftrightarrow> (unat reg div 256) mod 128 = 127"
  using masked_id_unat [of reg] by (simp_all add: word_eq_iff_unsigned [where ?'a = nat])

text \<open>
  C8. For every 16-bit vendor word, \<open>spd5118_vendor_valid\<close> returns true exactly when
  the low byte (bits 0..7) and the high byte (bits 8..15) each have an odd number of set
  bits and the high byte masked to 7 bits lies in 1..126; so it returns false whenever
  either byte has even parity or the masked id byte is 0 or 127.
\<close>

theorem vendor_valid_iff:
  "spd5118_vendor_valid reg \<longleftrightarrow>
     odd (card {n. n < 8 \<and> bit reg n}) \<and> odd (card {n. 8 \<le> n \<and> n < 16 \<and> bit reg n}) \<and>
     1 \<le> (unat reg div 256) mod 128 \<and> (unat reg div 256) mod 128 \<le> 126"
proof -
  have "(unat reg div 256) mod 128 < 128" by simp
  then have "((unat reg div 256) mod 128 \<noteq> 0 \<and> (unat reg div 256) mod 128 \<noteq> 127) \<longleftrightarrow>
     (1 \<le> (unat reg div 256) mod 128 \<and> (unat reg div 256) mod 128 \<le> 126)" by linarith
  moreover have "spd5118_vendor_valid reg \<longleftrightarrow>
     odd (card {n. n < 8 \<and> bit reg n}) \<and> odd (card {n. 8 \<le> n \<and> n < 16 \<and> bit reg n}) \<and>
     (unat reg div 256) mod 128 \<noteq> 0 \<and> (unat reg div 256) mod 128 \<noteq> 127"
    by (auto simp add: spd5118_vendor_valid_def Let_def parity_pfx parity_id masked_id_cases)
  ultimately show ?thesis by blast
qed

text \<open>
  The vendor word 0x8A01 (prefix byte 0x01, id byte 0x8A) is accepted, so both of its
  bytes have odd parity and its masked id, 10, lies in 1..126; 0x7F01 has the masked id
  127 and is rejected.
\<close>

theorem vendor_valid_iff_witness:
  "odd (card {n. n < 8 \<and> bit (0x8A01 :: u16) n}) \<and>
   odd (card {n. 8 \<le> n \<and> n < 16 \<and> bit (0x8A01 :: u16) n}) \<and>
   (unat (0x8A01 :: u16) div 256) mod 128 = 10 \<and>
   \<not> spd5118_vendor_valid 0x7F01"
proof -
  have a: "spd5118_vendor_valid 0x8A01" by code_simp
  have b: "(unat (0x7F01 :: u16) div 256) mod 128 = 127" by simp
  show ?thesis
    using vendor_valid_iff [of "0x8A01"] vendor_valid_iff [of "0x7F01"] a b by simp
qed

section \<open>Temperature codec\<close>

lemma sign_extend32_11: "sign_extend32 v 11 = signed_take_bit 11 v"
  unfolding sign_extend32_def Let_def
  by (rule bit_word_eqI) (auto simp: bit_simps)

lemma uint_ucast16_mul: "uint ((ucast (w :: u16) :: s32) * 250) = 250 * uint w"
proof -
  have b: "uint w < 65536" using uint_bounded [of w] by simp
  have "uint ((ucast w :: s32) * 250) = (uint (ucast w :: s32) * 250) mod 2 ^ 32"
    by (simp add: uint_word_ariths)
  also have "uint (ucast w :: s32) = uint w"
    by (simp add: uint_up_ucast is_up)
  also have "(uint w * 250) mod 2 ^ 32 = uint w * 250"
    using b by simp
  finally show ?thesis by simp
qed

lemma sint_ucast16_mul: "sint ((ucast (w :: u16) :: s32) * 250) = 250 * uint w"
proof -
  have b: "uint w < 65536" using uint_bounded [of w] by simp
  have "sint ((ucast w :: s32) * 250) = signed_take_bit 31 (uint ((ucast w :: s32) * 250))"
    by (simp add: sint_uint)
  also have "\<dots> = signed_take_bit 31 (250 * uint w)"
    by (simp only: uint_ucast16_mul)
  also have "\<dots> = 250 * uint w"
  proof (rule signed_take_bit_int_eq_self)
    have "(0::int) \<le> 250 * uint w" by simp
    moreover have "- (2 ^ 31) \<le> (0::int)" by simp
    ultimately show "- (2 ^ 31) \<le> 250 * uint w" by (rule order_trans [rotated])
    show "250 * uint w < 2 ^ 31" using b by simp
  qed
  finally show ?thesis .
qed

text \<open>
  What the decoder computes for any register value: the 12-bit field at bits 2..13,
  sign-extended from its bit 11, truncated to an unsigned 16-bit number, times 250. It
  is never negative.
\<close>

lemma temp_from_reg_value:
  "sint (spd5118_temp_from_reg r)
     = 250 * uint (ucast (signed_take_bit 11 (drop_bit 2 (ucast r :: u32))) :: u16)"
  by (simp add: spd5118_temp_from_reg_def sign_extend32_11 SPD5118_TEMP_UNIT_def sint_ucast16_mul)

lemma temp_from_reg_nonneg: "0 \<le> sint (spd5118_temp_from_reg r)"
  by (simp add: temp_from_reg_value)

lemma clamp_val_sint:
  "sint (clamp_val x SPD5118_TEMP_RANGE_MIN SPD5118_TEMP_RANGE_MAX)
     = min (max (sint x) (- 256000)) 255750"
  by (simp add: clamp_val_def word_sless_alt Let_def SPD5118_TEMP_RANGE_MIN_def
        SPD5118_TEMP_RANGE_MAX_def)

lemma uint_ucast_small:
  fixes k :: int
  assumes "0 \<le> k" "k < 65536"
  shows "uint (ucast (word_of_int k :: s32) :: u16) = k"
  using assms by (simp add: unsigned_ucast_eq uint_word_of_int take_bit_eq_mod)

text \<open>
  The encoder as arithmetic on integers: clamp, divide by 250 truncating towards zero,
  reduce modulo \<open>2 ^ 11\<close>, multiply by 4.
\<close>

lemma temp_to_reg_value:
  "uint (spd5118_temp_to_reg x)
     = 4 * ((min (max (sint x) (- 256000)) 255750 sdiv 250) mod 2048)"
proof -
  define c where "c = min (max (sint x) (- 256000)) (255750::int)"
  define q where "q = c sdiv 250"
  have c1: "c_sdiv32 (clamp_val x SPD5118_TEMP_RANGE_MIN SPD5118_TEMP_RANGE_MAX) SPD5118_TEMP_UNIT
              = word_of_int q"
    by (simp add: c_sdiv32_def clamp_val_sint SPD5118_TEMP_UNIT_def q_def c_def)
  have "(word_of_int q :: s32) AND mask 11 = word_of_int (take_bit 11 q)"
    by (simp only: take_bit_eq_mask [symmetric] take_bit_of_int)
  then have m: "(word_of_int q :: s32) AND 0x7ff = word_of_int (q mod 2048)"
    by (simp add: take_bit_eq_mod mask_eq_exp_minus_1)
  have p: "push_bit 2 (word_of_int (q mod 2048) :: s32) = word_of_int (4 * (q mod 2048))"
    by (simp add: push_bit_eq_mult)
  have r: "0 \<le> 4 * (q mod 2048)" "4 * (q mod 2048) < 65536"
    by simp_all
  have "spd5118_temp_to_reg x = ucast (word_of_int (4 * (q mod 2048)) :: s32)"
    by (simp only: spd5118_temp_to_reg_def Let_def c1 m p)
  then have "uint (spd5118_temp_to_reg x) = 4 * (q mod 2048)"
    by (simp only: uint_ucast_small [OF r])
  then show ?thesis
    by (simp only: q_def c_def)
qed

text \<open>
  C1 (fails on the code). The claim: every decoded value lies in [-256000, 255750].
  The register value 0x1FFC holds the 11-bit field 0x7FF, which is -0.25 degrees; it is
  what the encoder produces for -250. The decoder returns 511750 for it, outside the
  range: it sign-extends from bit 11 instead of bit 10.
\<close>

theorem temp_from_reg_out_of_range:
  "spd5118_temp_to_reg (- 250) = 0x1FFC \<and>
   sint (spd5118_temp_from_reg 0x1FFC) = 511750 \<and>
   \<not> sint (spd5118_temp_from_reg 0x1FFC) \<le> 255750"
  by code_simp

text \<open>
  C2 (fails on the code). The claim: encoding the decoded value gives back the 11-bit
  field of the register. For 0x1FFC the field is 0x7FF; the decoder returns 511750,
  which the encoder clamps to 255750, field 0x3FF.
\<close>

theorem temp_round_trip_fails:
  "drop_bit 2 (spd5118_temp_to_reg (spd5118_temp_from_reg 0x1FFC)) AND 0x7ff = 0x3ff \<and>
   drop_bit 2 (0x1FFC :: u16) AND 0x7ff = 0x7ff"
  by code_simp

text \<open>
  C7. For every \<open>int\<close> input, \<open>spd5118_temp_to_reg\<close> clamps to [-256000, 255750], divides
  by 250 truncating towards zero, keeps 11 bits and shifts left by 2; so every input
  below -256000 encodes as -256000 does and every input above 255750 as 255750 does.
\<close>

theorem temp_to_reg_clamps:
  "uint (spd5118_temp_to_reg x)
     = 4 * ((min (max (sint x) (- 256000)) 255750 sdiv 250) mod 2048) \<and>
   (sint x < - 256000 \<longrightarrow> spd5118_temp_to_reg x = spd5118_temp_to_reg (- 256000)) \<and>
   (255750 < sint x \<longrightarrow> spd5118_temp_to_reg x = spd5118_temp_to_reg 255750)"
proof (intro conjI impI)
  show "uint (spd5118_temp_to_reg x)
          = 4 * ((min (max (sint x) (- 256000)) 255750 sdiv 250) mod 2048)"
    by (rule temp_to_reg_value)
  show "spd5118_temp_to_reg x = spd5118_temp_to_reg (- 256000)" if "sint x < - 256000"
    using that by (intro word_uint_eqI) (simp add: temp_to_reg_value)
  show "spd5118_temp_to_reg x = spd5118_temp_to_reg 255750" if "255750 < sint x"
    using that by (intro word_uint_eqI) (simp add: temp_to_reg_value)
qed

theorem temp_to_reg_clamps_witness:
  "sint (- 300000 :: s32) < - 256000 \<and> spd5118_temp_to_reg (- 300000) = 0x1000 \<and>
   255750 < sint (300000 :: s32) \<and> spd5118_temp_to_reg 300000 = 0x0FFC"
proof -
  have lo: "spd5118_temp_to_reg (- 256000) = 0x1000" by code_simp
  have hi: "spd5118_temp_to_reg 255750 = 0x0FFC" by code_simp
  show ?thesis
    using temp_to_reg_clamps [of "- 300000"] temp_to_reg_clamps [of 300000] lo hi by simp
qed

section \<open>Paged EEPROM reads\<close>

lemma bus_run_refl: "0 \<le> r \<Longrightarrow> bus_run b b r"
  by (simp add: bus_run_def)

lemma bus_run_trans:
  assumes "bus_run b b1 r1" "0 \<le> r1" "bus_run b1 b2 r2"
  shows "bus_run b b2 r2"
proof -
  from assms(1) obtain ops1 where o1: "trace b1 = trace b @ ops1" "\<forall>op \<in> set ops1. within_page op"
    by (auto simp: bus_run_def)
  from assms(3) obtain ops2 where o2: "trace b2 = trace b1 @ ops2" "\<forall>op \<in> set ops2. within_page op"
    by (auto simp: bus_run_def)
  have "trace b2 = trace b @ (ops1 @ ops2)" "\<forall>op \<in> set (ops1 @ ops2). within_page op"
    using o1 o2 by auto
  then have t: "\<exists>ops. trace b2 = trace b @ ops \<and> (\<forall>op \<in> set ops. within_page op)"
    by blast
  have f: "fault b1 = fault b" "eeprom b2 = eeprom b" "block_max b2 = block_max b" "fault b2 = fault b"
    using assms(1,3) by (simp_all add: bus_run_def)
  have ok1: "\<forall>k. length (trace b) \<le> k \<and> k < length (trace b1) \<longrightarrow> 0 \<le> fault b k"
    using assms(1,2) by (simp add: bus_run_def)
  show ?thesis
  proof (cases "r2 < 0")
    case True
    with assms(3) f have r2: "length (trace b1) < length (trace b2)" "r2 = fault b (length (trace b2) - 1)"
      "\<forall>k. length (trace b1) \<le> k \<and> k < length (trace b2) - 1 \<longrightarrow> 0 \<le> fault b k"
      by (simp_all add: bus_run_def)
    have "\<forall>k. length (trace b) \<le> k \<and> k < length (trace b2) - 1 \<longrightarrow> 0 \<le> fault b k"
      using ok1 r2(3) by (metis not_le_imp_less)
    moreover have "length (trace b) < length (trace b2)" using r2(1) o1 by simp
    ultimately show ?thesis using True f r2(2) t by (simp add: bus_run_def)
  next
    case False
    with assms(3) f have "\<forall>k. length (trace b1) \<le> k \<and> k < length (trace b2) \<longrightarrow> 0 \<le> fault b k"
      by (simp add: bus_run_def)
    with ok1 have "\<forall>k. length (trace b) \<le> k \<and> k < length (trace b2) \<longrightarrow> 0 \<le> fault b k"
      by (metis not_le_imp_less)
    then show ?thesis using False f t by (simp add: bus_run_def)
  qed
qed

lemma page_word: "p < 8 \<Longrightarrow> unat ((word_of_int (int p) :: u8) AND 7) = p"
proof -
  assume p: "p < 8"
  have "(7 :: u8) = mask 3" by (simp add: mask_eq_exp_minus_1)
  then have "unat ((word_of_int (int p) :: u8) AND 7) = unat (take_bit 3 (of_nat p :: u8))"
    by (simp add: take_bit_eq_mask)
  also have "\<dots> = take_bit 3 (take_bit 8 p)"
    by (simp add: unsigned_take_bit_eq unsigned_of_nat)
  also have "\<dots> = p" using p by (simp add: take_bit_eq_mod)
  finally show ?thesis .
qed

lemma unat_u8_of_nat: "n < 256 \<Longrightarrow> unat (of_nat n :: u8) = n"
  by (simp add: unsigned_of_nat take_bit_eq_mod)

lemma map_shift_upt: "map (\<lambda>i. f (a + i)) [0..<n] = map f [a..<a + n]"
  by (induction n) simp_all


lemma set_current_page_same:
  "page = current_page d \<Longrightarrow> spd5118_set_current_page d b page = (0, d, b)"
  by (simp add: spd5118_set_current_page_def)

lemma set_current_page_fail:
  assumes "page \<noteq> current_page d" "fault b (length (trace b)) < 0"
  shows "spd5118_set_current_page d b page =
           (fault b (length (trace b)), d,
            b\<lparr>trace := trace b @ [Write_Byte_Data SPD5118_REG_I2C_LEGACY_MODE (word_of_int page)]\<rparr>)"
  using assms
  by (simp add: spd5118_set_current_page_def i2c_smbus_write_byte_data_def smbus_xfer_def)

lemma set_current_page_done:
  assumes "page \<noteq> current_page d" "\<not> fault b (length (trace b)) < 0"
  shows "spd5118_set_current_page d b page =
           (0, d\<lparr>current_page := page\<rparr>,
            b\<lparr>trace := trace b @ [Write_Byte_Data SPD5118_REG_I2C_LEGACY_MODE (word_of_int page)],
              page_reg := word_of_int page\<rparr>)"
  using assms
  by (simp add: spd5118_set_current_page_def i2c_smbus_write_byte_data_def smbus_xfer_def)

lemma block_read_fail:
  assumes "fault b (length (trace b)) < 0"
  shows "i2c_smbus_read_i2c_block_data_or_emulated b c n =
           ((fault b (length (trace b)), []), b\<lparr>trace := trace b @ [Read_Block_Data c n]\<rparr>)"
  using assms
  by (simp add: i2c_smbus_read_i2c_block_data_or_emulated_def smbus_xfer_def)

lemma block_read_done:
  assumes "\<not> fault b (length (trace b)) < 0"
  shows "i2c_smbus_read_i2c_block_data_or_emulated b c n =
           ((int (min (unat n) (block_max b)),
             map (\<lambda>i. window_byte b (unat c + i)) [0..<min (unat n) (block_max b)]),
            b\<lparr>trace := trace b @ [Read_Block_Data c n]\<rparr>)"
  using assms
  by (simp add: i2c_smbus_read_i2c_block_data_or_emulated_def smbus_xfer_def window_byte_def
        hw_page_def Let_def)

text \<open>The bytes of the window are the bytes of the selected page.\<close>

lemma window_bytes:
  assumes "hw_page b = page" "intra + n \<le> 128"
  shows "map (\<lambda>i. window_byte b (128 + intra + i)) [0..<n]
           = map (eeprom b) [page * 128 + intra..<page * 128 + intra + n]"
proof -
  have "map (\<lambda>i. window_byte b (128 + intra + i)) [0..<n]
          = map (\<lambda>i. eeprom b (page * 128 + intra + i)) [0..<n]"
    using assms by (intro map_cong) (auto simp: window_byte_def add.assoc)
  then show ?thesis by (simp add: map_shift_upt)
qed


lemma hw_page_trace: "hw_page (b\<lparr>trace := t\<rparr>) = hw_page b"
  by (simp add: hw_page_def)

lemma range_one: "(\<forall>k. a \<le> k \<and> k < Suc a \<longrightarrow> P k) \<longleftrightarrow> P a"
  by (auto simp: less_Suc_eq_le dest: le_antisym)

lemma range_two: "(\<forall>k. a \<le> k \<and> k < Suc (Suc a) \<longrightarrow> P k) \<longleftrightarrow> P a \<and> P (Suc a)"
  by (auto simp: less_Suc_eq)

lemma power_numeral_7: "(2::nat) ^ 7 = 128"
  by simp

lemma eeprom_read_step:
  assumes "off + count \<le> 1024" "0 < count" "page_cache_ok d b"
  shows "case spd5118_eeprom_read d b off count of
           ((r, bytes), d', b') \<Rightarrow>
             bus_run b b' r \<and> page_cache_ok d' b' \<and>
             (0 \<le> r \<longrightarrow>
                r = int (min (min count (128 - off mod 128)) (block_max b)) \<and>
                bytes = map (eeprom b) [off..<off + nat r])"
proof -
  define page where "page = off div 128"
  define intra where "intra = off mod 128"
  define len where "len = min count (128 - intra)"
  define cmd where "cmd = (of_nat (128 + intra) :: u8)"
  define sel where "sel = Write_Byte_Data SPD5118_REG_I2C_LEGACY_MODE (word_of_int (int page))"
  have off: "off = page * 128 + intra" by (simp add: page_def intra_def)
  have page8: "page < 8" using assms(1,2) by (simp add: page_def)
  have intra: "intra < 128" by (simp add: intra_def)
  have len: "0 < len" "intra + len \<le> 128" "len \<le> count"
    using assms(2) intra by (simp_all add: len_def)
  have "intra + count < 2 ^ 64"
    using assms(1) by (simp add: off)
  then have nowrap: "(intra + count) mod 2 ^ 64 = intra + count"
    by simp
  have clamp: "(if 128 < intra + count then 128 - intra else count) = len"
    using intra by (auto simp: len_def)
  have ucmd: "unat cmd = 128 + intra"
    unfolding cmd_def using intra by (intro unat_u8_of_nat) simp
  have ulen: "unat (of_nat len :: u8) = len"
    using len intra by (intro unat_u8_of_nat) simp
  have wp: "within_page (Read_Block_Data cmd (of_nat len))"
    using len by (simp add: ucmd ulen)
  have unfold: "spd5118_eeprom_read d b off count =
      (case spd5118_set_current_page d b (int page) of (status, d1, b1) \<Rightarrow>
         if status \<noteq> 0 then ((status, []), d1, b1)
         else case i2c_smbus_read_i2c_block_data_or_emulated b1 cmd (of_nat len) of
                (r, b2) \<Rightarrow> (r, d1, b2))"
    by (simp only: spd5118_eeprom_read_def Let_def SPD5118_PAGE_SHIFT_def SPD5118_PAGE_SIZE_def
          SPD5118_EEPROM_BASE_def power_numeral_7 page_def [symmetric] intra_def [symmetric] nowrap clamp
          cmd_def [symmetric])
  have bytes: "map (\<lambda>i. window_byte b1 (unat cmd + i)) [0..<min len (block_max b1)]
                 = map (eeprom b1) [off..<off + min len (block_max b1)]"
    if "hw_page b1 = page" for b1
    using window_bytes [OF that, of intra "min len (block_max b1)"] len(2)
    by (simp add: ucmd off)
  have fold: "min count (128 - off mod 128) = len"
    by (simp add: len_def intra_def)
  show ?thesis
  proof (cases "int page = current_page d")
    case same: True
    then have hw: "hw_page b = page"
      using assms(3) page8 by (simp add: page_cache_ok_def)
    show ?thesis
    proof (cases "fault b (length (trace b)) < 0")
      case True
      then show ?thesis
        using assms(3) wp
        by (simp add: unfold set_current_page_same [OF same] block_read_fail bus_run_def
              page_cache_ok_def hw_page_trace)
    next
      case False
      then show ?thesis
        using assms(3) wp bytes [OF hw]
        by (simp add: unfold set_current_page_same [OF same] block_read_done bus_run_def
              page_cache_ok_def hw_page_trace ulen fold range_one)
    qed
  next
    case differs: False
    show ?thesis
    proof (cases "fault b (length (trace b)) < 0")
      case True
      then show ?thesis
        using assms(3)
        by (simp add: unfold set_current_page_fail [OF differs] bus_run_def
              page_cache_ok_def hw_page_trace)
    next
      case selected: False
      define b1 where "b1 = b\<lparr>trace := trace b @ [Write_Byte_Data SPD5118_REG_I2C_LEGACY_MODE (word_of_int (int page))],
              page_reg := word_of_int (int page)\<rparr>"
      have hw: "hw_page b1 = page"
        using page_word [OF page8] by (simp add: b1_def hw_page_def)
      have sel: "spd5118_set_current_page d b (int page) = (0, d\<lparr>current_page := int page\<rparr>, b1)"
        by (simp add: set_current_page_done [OF differs selected] b1_def)
      have b1: "eeprom b1 = eeprom b" "block_max b1 = block_max b" "fault b1 = fault b"
        "trace b1 = trace b @ [Write_Byte_Data SPD5118_REG_I2C_LEGACY_MODE (word_of_int (int page))]"
        by (simp_all add: b1_def)
      show ?thesis
      proof (cases "fault b1 (length (trace b1)) < 0")
        case True
        then show ?thesis
          using selected wp hw page8
          by (simp add: unfold sel block_read_fail bus_run_def page_cache_ok_def hw_page_trace b1
                range_one)
      next
        case False
        then show ?thesis
          using selected wp hw page8 bytes [OF hw]
          by (simp add: unfold sel block_read_done bus_run_def page_cache_ok_def hw_page_trace b1
                ulen fold range_two)
      qed
    qed
  qed
qed


declare eeprom_read_loop.simps [simp del]

lemma eeprom_read_loop_stop:
  "eeprom_read_loop fuel d b buf off 0 ret = Some (ret, buf, d, b)"
  by (simp add: eeprom_read_loop.simps)

lemma eeprom_read_loop_step:
  assumes "0 < count" "spd5118_eeprom_read d b (off mod 2 ^ 32) count = ((r, bytes), d1, b1)"
  shows "eeprom_read_loop (Suc fuel) d b buf off count ret =
           (if r < 0 then Some (r, buf, d1, b1)
            else eeprom_read_loop fuel d1 b1 (buf @ bytes) (off + nat r)
                   ((count + 2 ^ 64 - nat r) mod 2 ^ 64) r)"
  using assms by (simp add: eeprom_read_loop.simps [of "Suc fuel"])

lemma eeprom_read_loop_correct:
  assumes "count \<le> fuel" "off + count \<le> 1024" "0 < block_max b" "page_cache_ok d b" "0 \<le> ret"
  shows "\<exists>r buf' d' b'. eeprom_read_loop fuel d b buf off count ret = Some (r, buf', d', b') \<and>
           bus_run b b' r \<and> page_cache_ok d' b' \<and>
           (0 \<le> r \<longrightarrow> buf' = buf @ map (eeprom b) [off..<off + count])"
  using assms
proof (induction fuel arbitrary: d b buf off count ret)
  case 0
  then show ?case by (simp add: eeprom_read_loop_stop bus_run_refl)
next
  case (Suc fuel)
  show ?case
  proof (cases "count = 0")
    case True
    with Suc.prems show ?thesis by (simp add: eeprom_read_loop_stop bus_run_refl)
  next
    case False
    then have pos: "0 < count" by simp
    obtain r bytes d1 b1 where step: "spd5118_eeprom_read d b off count = ((r, bytes), d1, b1)"
      by (metis prod.exhaust)
    from eeprom_read_step [OF Suc.prems(2) pos Suc.prems(4)] step
    have run1: "bus_run b b1 r" and cache1: "page_cache_ok d1 b1"
      and ok1: "0 \<le> r \<Longrightarrow> r = int (min (min count (128 - off mod 128)) (block_max b)) \<and>
                bytes = map (eeprom b) [off..<off + nat r]"
      by simp_all
    have off32: "off mod 2 ^ 32 = off" using Suc.prems(2) by simp
    note unroll = eeprom_read_loop_step [OF pos, of d b off, unfolded off32, OF step]
    show ?thesis
    proof (cases "r < 0")
      case True
      then show ?thesis using run1 cache1 by (simp add: unroll)
    next
      case False
      define n where "n = nat r"
      have r: "r = int n" "bytes = map (eeprom b) [off..<off + n]" "0 < n" "n \<le> count"
        using ok1 False pos Suc.prems(3) by (auto simp: n_def)
      have "(count + 2 ^ 64 - n) mod 2 ^ 64 = count - n"
        using r(4) Suc.prems(2) by (simp add: mod_if)
      then have cnt: "(count + 18446744073709551616 - n) mod 18446744073709551616 = count - n"
        by simp
      have b1: "eeprom b1 = eeprom b" "block_max b1 = block_max b"
        using run1 by (simp_all add: bus_run_def)
      have "\<exists>r' buf' d' b'. eeprom_read_loop fuel d1 b1 (buf @ bytes) (off + n) (count - n) r
               = Some (r', buf', d', b') \<and>
             bus_run b1 b' r' \<and> page_cache_ok d' b' \<and>
             (0 \<le> r' \<longrightarrow> buf' = (buf @ bytes) @ map (eeprom b1) [off + n..<off + n + (count - n)])"
        using Suc.prems r b1 cache1 by (intro Suc.IH) simp_all
      then obtain r' buf' d' b' where
        rest: "eeprom_read_loop fuel d1 b1 (buf @ bytes) (off + n) (count - n) r = Some (r', buf', d', b')"
          "bus_run b1 b' r'" "page_cache_ok d' b'"
          "0 \<le> r' \<Longrightarrow> buf' = (buf @ bytes) @ map (eeprom b1) [off + n..<off + n + (count - n)]"
        by blast
      have "[off..<off + count] = [off..<off + n] @ [off + n..<off + n + (count - n)]"
        using upt_add_eq_append [of off "off + n" "count - n"] r(4) by simp
      then have "buf' = buf @ map (eeprom b) [off..<off + count]" if "0 \<le> r'"
        using rest(4) [OF that] r(2) b1 by simp
      moreover have "bus_run b b' r'"
        using bus_run_trans [OF run1 _ rest(2)] False by simp
      ultimately show ?thesis
        using False rest(1,3) by (simp add: unroll n_def [symmetric] cnt)
    qed
  qed
qed


lemma issued_append: "trace b' = trace b @ ops \<Longrightarrow> issued b b' = ops"
  by (simp add: issued_def)

lemma eeprom_read_primitive_ops:
  assumes "off + count \<le> 1024"
  shows "\<forall>op \<in> set (issued b (snd (snd (spd5118_eeprom_read d b off count)))).
            op = Write_Byte_Data SPD5118_REG_I2C_LEGACY_MODE (of_nat (off div 128)) \<or>
            op = Read_Block_Data (of_nat (128 + off mod 128)) (of_nat (min count (128 - off mod 128)))"
proof -
  have "off mod 128 + count < 2 ^ 64"
    using assms mod_less_eq_dividend [of off 128] by simp
  then have nowrap: "(off mod 128 + count) mod 18446744073709551616 = off mod 128 + count"
    by simp
  have clamp: "128 < off mod 128 + count \<Longrightarrow> min count (128 - off mod 128) = 128 - off mod 128"
     "\<not> 128 < off mod 128 + count \<Longrightarrow> min count (128 - off mod 128) = count"
    by simp_all
  show ?thesis
    by (simp add: spd5118_eeprom_read_def spd5118_set_current_page_def
          i2c_smbus_write_byte_data_def i2c_smbus_read_i2c_block_data_or_emulated_def
          smbus_xfer_def issued_def Let_def SPD5118_PAGE_SHIFT_def SPD5118_PAGE_SIZE_def
          SPD5118_EEPROM_BASE_def nowrap clamp)
qed

lemma spec_page_reads_stop: "spec_page_reads bm off 0 = []"
  by (simp add: spec_page_reads.simps)

lemma spec_page_reads_step:
  assumes "0 < count" "0 < bm"
  shows "spec_page_reads bm off count =
           (off, min count (128 - off mod 128), min (min count (128 - off mod 128)) bm)
           # spec_page_reads bm (off + min (min count (128 - off mod 128)) bm)
               (count - min (min count (128 - off mod 128)) bm)"
  using assms by (subst spec_page_reads.simps) (simp add: Let_def)

lemma spec_chunk_bytes_flat:
  assumes "off + n \<le> 1024" "off mod 128 + n \<le> 128" "0 < n"
  shows "spec_chunk_bytes b (off, len, n) = map (eeprom b) [off..<off + n]"
proof -
  have page8: "off div 128 < 8" using assms(1,3) by simp
  have hw: "hw_page (b\<lparr>page_reg := of_nat (off div 128)\<rparr>) = off div 128"
    using page_word [OF page8] by (simp add: hw_page_def)
  have "eeprom (b\<lparr>page_reg := of_nat (off div 128)\<rparr>) = eeprom b" by simp
  with window_bytes [OF hw assms(2)] show ?thesis
    by (simp add: spec_chunk_bytes_def)
qed

lemma spec_page_reads_flat:
  assumes "off + count \<le> 1024" "0 < bm"
  shows "concat (map (spec_chunk_bytes b) (spec_page_reads bm off count)) = map (eeprom b) [off..<off + count]"
  using assms
proof (induction bm off count rule: spec_page_reads.induct)
  case (1 bm off count)
  show ?case
  proof (cases "count = 0")
    case True
    then show ?thesis by (simp add: spec_page_reads_stop)
  next
    case False
    define n where "n = min (min count (128 - off mod 128)) bm"
    have n: "0 < n" "n \<le> count" "off mod 128 + n \<le> 128"
      using False "1.prems"(2) by (auto simp: n_def)
    have step: "spec_page_reads bm off count = (off, min count (128 - off mod 128), n) # spec_page_reads bm (off + n) (count - n)"
      using False "1.prems"(2) by (simp add: spec_page_reads_step n_def)
    have IH: "concat (map (spec_chunk_bytes b) (spec_page_reads bm (off + n) (count - n)))
                = map (eeprom b) [off + n..<off + n + (count - n)]"
      using False "1.prems" n
      by (intro "1.IH" [OF _ refl n_def]) simp_all
    have split: "[off..<off + count] = [off..<off + n] @ [off + n..<off + n + (count - n)]"
      using upt_add_eq_append [of off "off + n" "count - n"] n(2) by simp
    have "spec_chunk_bytes b (off, min count (128 - off mod 128), n) = map (eeprom b) [off..<off + n]"
      using n "1.prems"(1) by (intro spec_chunk_bytes_flat) simp_all
    then show ?thesis
      by (simp add: step IH split)
  qed
qed


lemma spec_read_ops_Cons:
  "spec_read_ops cp (x # rs) = spec_read_ops cp [x] @ spec_read_ops (int (fst x div 128)) rs"
  by (cases x) simp

lemma take_prefix_append:
  assumes "ops = take (length ops) xs"
  shows "ops = take (length ops) (xs @ ys)"
proof -
  have "length ops = min (length ops) (length xs)"
    using arg_cong [OF assms, of length] by simp
  then have "length ops \<le> length xs"
    by linarith
  then show ?thesis using assms by simp
qed

lemma eeprom_read_step_ops:
  assumes "off + count \<le> 1024" "0 < count"
  shows "case spd5118_eeprom_read d b off count of
           ((r, bytes), d', b') \<Rightarrow>
             (\<exists>ops. trace b' = trace b @ ops \<and>
                ops = take (length ops)
                        (spec_read_ops (current_page d) [(off, min count (128 - off mod 128), n)]) \<and>
                (0 \<le> r \<longrightarrow>
                   ops = spec_read_ops (current_page d) [(off, min count (128 - off mod 128), n)] \<and>
                   current_page d' = int (off div 128)))"
proof -
  define page where "page = off div 128"
  define intra where "intra = off mod 128"
  define len where "len = min count (128 - intra)"
  define cmd where "cmd = (of_nat (128 + intra) :: u8)"
  have off: "off = page * 128 + intra" by (simp add: page_def intra_def)
  have intra: "intra < 128" by (simp add: intra_def)
  have "intra + count < 2 ^ 64"
    using assms(1) by (simp add: off)
  then have nowrap: "(intra + count) mod 2 ^ 64 = intra + count"
    by simp
  have clamp: "(if 128 < intra + count then 128 - intra else count) = len"
    using intra by (auto simp: len_def)
  have unfold: "spd5118_eeprom_read d b off count =
      (case spd5118_set_current_page d b (int page) of (status, d1, b1) \<Rightarrow>
         if status \<noteq> 0 then ((status, []), d1, b1)
         else case i2c_smbus_read_i2c_block_data_or_emulated b1 cmd (of_nat len) of
                (r, b2) \<Rightarrow> (r, d1, b2))"
    by (simp only: spd5118_eeprom_read_def Let_def SPD5118_PAGE_SHIFT_def SPD5118_PAGE_SIZE_def
          SPD5118_EEPROM_BASE_def power_numeral_7 page_def [symmetric] intra_def [symmetric] nowrap clamp
          cmd_def [symmetric])
  have goal: "case spd5118_eeprom_read d b off count of
           ((r, bytes), d', b') \<Rightarrow>
             (\<exists>ops. trace b' = trace b @ ops \<and>
                ops = take (length ops) (spec_read_ops (current_page d) [(off, len, n)]) \<and>
                (0 \<le> r \<longrightarrow>
                   ops = spec_read_ops (current_page d) [(off, len, n)] \<and>
                   current_page d' = int page))"
  proof (cases "int page = current_page d")
    case same: True
    show ?thesis
      by (cases "fault b (length (trace b)) < 0")
        (simp_all add: unfold set_current_page_same [OF refl] block_read_fail block_read_done
           page_def [symmetric] intra_def [symmetric] cmd_def same)
  next
    case differs: False
    show ?thesis
    proof (cases "fault b (length (trace b)) < 0")
      case True
      then show ?thesis
        using differs
        by (simp add: unfold set_current_page_fail [OF differs True]
              page_def [symmetric] intra_def [symmetric] cmd_def)
    next
      case False
      let ?b1 = "b\<lparr>trace := trace b @ [Write_Byte_Data SPD5118_REG_I2C_LEGACY_MODE (word_of_int (int page))],
                   page_reg := word_of_int (int page)\<rparr>"
      show ?thesis
        using differs
        by (cases "fault ?b1 (length (trace ?b1)) < 0")
          (simp_all add: unfold False set_current_page_done [OF differs False]
             block_read_fail block_read_done page_def [symmetric] intra_def [symmetric] cmd_def)
    qed
  qed
  then show ?thesis
    by (simp only: len_def intra_def page_def)
qed


lemma eeprom_read_loop_ops:
  assumes "count \<le> fuel" "off + count \<le> 1024" "0 < block_max b" "page_cache_ok d b"
  shows "\<exists>r buf' d' b' ops.
           eeprom_read_loop fuel d b buf off count ret = Some (r, buf', d', b') \<and>
           trace b' = trace b @ ops \<and>
           ops = take (length ops) (spec_read_ops (current_page d) (spec_page_reads (block_max b) off count)) \<and>
           (0 \<le> r \<longrightarrow> ops = spec_read_ops (current_page d) (spec_page_reads (block_max b) off count))"
  using assms
proof (induction fuel arbitrary: d b buf off count ret)
  case 0
  then show ?case by (simp add: eeprom_read_loop_stop spec_page_reads_stop)
next
  case (Suc fuel)
  show ?case
  proof (cases "count = 0")
    case True
    then show ?thesis by (simp add: eeprom_read_loop_stop spec_page_reads_stop)
  next
    case False
    then have pos: "0 < count" by simp
    define len where "len = min count (128 - off mod 128)"
    define n where "n = min len (block_max b)"
    define full1 where "full1 = spec_read_ops (current_page d) [(off, len, n)]"
    define rest where "rest = spec_read_ops (int (off div 128)) (spec_page_reads (block_max b) (off + n) (count - n))"
    have full: "spec_read_ops (current_page d) (spec_page_reads (block_max b) off count) = full1 @ rest"
      using spec_page_reads_step [OF pos Suc.prems(3), of off]
        spec_read_ops_Cons [of "current_page d" "(off, len, n)"]
      by (simp add: full1_def rest_def len_def n_def)
    obtain r bytes d1 b1 where step: "spd5118_eeprom_read d b off count = ((r, bytes), d1, b1)"
      by (metis prod.exhaust)
    from eeprom_read_step [OF Suc.prems(2) pos Suc.prems(4)] step
    have run1: "bus_run b b1 r" and cache1: "page_cache_ok d1 b1"
      and ok1: "0 \<le> r \<Longrightarrow> r = int n"
      by (simp_all add: n_def len_def)
    from eeprom_read_step_ops [OF Suc.prems(2) pos, where d = d and b = b and n = n] step
    obtain ops1 where ops1: "trace b1 = trace b @ ops1" "ops1 = take (length ops1) full1"
      "0 \<le> r \<Longrightarrow> ops1 = full1 \<and> current_page d1 = int (off div 128)"
      by (auto simp: full1_def len_def)
    have off32: "off mod 2 ^ 32 = off" using Suc.prems(2) by simp
    note unroll = eeprom_read_loop_step [OF pos, of d b off, unfolded off32, OF step]
    show ?thesis
    proof (cases "r < 0")
      case True
      have "ops1 = take (length ops1) (full1 @ rest)"
        using ops1(2) by (rule take_prefix_append)
      then show ?thesis using True ops1(1) by (simp add: unroll full)
    next
      case False
      then have r: "r = int n" "ops1 = full1" "current_page d1 = int (off div 128)"
        using ok1 ops1(3) by simp_all
      have n: "0 < n" "n \<le> count"
        using pos Suc.prems(3) by (auto simp: n_def len_def)
      have "(count + 2 ^ 64 - n) mod 2 ^ 64 = count - n"
        using n(2) Suc.prems(2) by (simp add: mod_if)
      then have cnt: "(count + 18446744073709551616 - n) mod 18446744073709551616 = count - n"
        by simp
      have b1: "block_max b1 = block_max b"
        using run1 by (simp add: bus_run_def)
      have "\<exists>r' buf' d' b' ops.
               eeprom_read_loop fuel d1 b1 (buf @ bytes) (off + n) (count - n) r
                 = Some (r', buf', d', b') \<and>
               trace b' = trace b1 @ ops \<and>
               ops = take (length ops)
                       (spec_read_ops (current_page d1) (spec_page_reads (block_max b1) (off + n) (count - n))) \<and>
               (0 \<le> r' \<longrightarrow>
                  ops = spec_read_ops (current_page d1) (spec_page_reads (block_max b1) (off + n) (count - n)))"
        using Suc.prems n b1 cache1 by (intro Suc.IH) simp_all
      then obtain r' buf' d' b' ops2 where
        rest: "eeprom_read_loop fuel d1 b1 (buf @ bytes) (off + n) (count - n) r = Some (r', buf', d', b')"
          "trace b' = trace b1 @ ops2" "ops2 = take (length ops2) rest"
          "0 \<le> r' \<Longrightarrow> ops2 = rest"
        unfolding rest_def r(3) b1 by blast
      have t: "trace b' = trace b @ (full1 @ ops2)"
        using rest(2) ops1(1) r(2) by simp
      have p: "full1 @ ops2 = take (length (full1 @ ops2)) (full1 @ rest)"
        using rest(3) by simp
      have e: "0 \<le> r' \<longrightarrow> full1 @ ops2 = full1 @ rest"
        using rest(4) by simp
      have "eeprom_read_loop (Suc fuel) d b buf off count ret = Some (r', buf', d', b')"
        using False rest(1) by (simp add: unroll r(1) cnt)
      then show ?thesis
        unfolding full using t p e by blast
    qed
  qed
qed


lemma spec_read_ops_nonempty:
  assumes "0 < count" "0 < bm"
  shows "spec_read_ops cp (spec_page_reads bm off count) \<noteq> []"
  using spec_page_reads_step [OF assms, of off] by simp

text \<open>
  C3. Every call of the primitive \<open>spd5118_eeprom_read\<close> within the 1024 bytes issues
  at most a page select and one block read, at the window base plus \<open>offset mod 128\<close>
  for \<open>min count (128 - offset mod 128)\<close> bytes. For a bulk read of \<open>count\<close> bytes at
  \<open>off\<close> with \<open>off + count \<le> 1024\<close>, on a transport whose block reads make progress
  and with a coherent page cache: \<open>eeprom_read\<close> returns (fuel \<open>count\<close> is enough);
  every transaction it issued stays inside the 128-byte window; if it succeeds it
  reports \<open>count\<close> and the bytes stored are the flat memory at \<open>off..<off + count\<close>;
  it fails exactly when one of its transactions failed, and then the result is the
  error of that transaction, the last one issued; the page cache stays coherent and the
  memory unchanged. The transactions it issued are the decomposition into per-page
  primitive reads, \<open>spec_read_ops\<close> of \<open>spec_page_reads\<close>: all of it when the read succeeds, with
  the bytes stored being the concatenation of the bytes those reads transferred, and
  the part of it up to the transaction that failed otherwise; a read of at least one
  byte issues at least one transaction.
\<close>

theorem eeprom_read_flat_memory:
  assumes "off + count \<le> 1024" "0 < block_max b" "page_cache_ok d b"
  shows "(\<forall>d1 b1 o1 c1. o1 + c1 \<le> 1024 \<longrightarrow>
            (\<forall>op \<in> set (issued b1 (snd (snd (spd5118_eeprom_read d1 b1 o1 c1)))).
               op = Write_Byte_Data SPD5118_REG_I2C_LEGACY_MODE (of_nat (o1 div 128)) \<or>
               op = Read_Block_Data (of_nat (128 + o1 mod 128))
                      (of_nat (min c1 (128 - o1 mod 128))))) \<and>
         (\<exists>ret buf d' b'. eeprom_read count d b off count = Some (ret, buf, d', b') \<and>
            (\<forall>op \<in> set (issued b b'). within_page op) \<and>
            (0 \<le> ret \<longrightarrow> ret = int count \<and> buf = map (eeprom b) [off..<off + count]) \<and>
            (ret < 0 \<longleftrightarrow> (\<exists>k. length (trace b) \<le> k \<and> k < length (trace b') \<and> fault b k < 0)) \<and>
            (ret < 0 \<longrightarrow> ret = fault b (length (trace b') - 1)) \<and>
            page_cache_ok d' b' \<and> eeprom b' = eeprom b \<and>
            trace b' = trace b @ issued b b' \<and>
            issued b b' = take (length (issued b b'))
                            (spec_read_ops (current_page d) (spec_page_reads (block_max b) off count)) \<and>
            (0 \<le> ret \<longrightarrow>
               issued b b' = spec_read_ops (current_page d) (spec_page_reads (block_max b) off count) \<and>
               buf = concat (map (spec_chunk_bytes b) (spec_page_reads (block_max b) off count))) \<and>
            (\<forall>k. length (trace b) \<le> k \<and> k + 1 < length (trace b') \<longrightarrow> 0 \<le> fault b k) \<and>
            (0 < count \<longrightarrow> issued b b' \<noteq> []))"
proof (rule conjI)
  show "\<forall>d1 b1 o1 c1. o1 + c1 \<le> 1024 \<longrightarrow>
            (\<forall>op \<in> set (issued b1 (snd (snd (spd5118_eeprom_read d1 b1 o1 c1)))).
               op = Write_Byte_Data SPD5118_REG_I2C_LEGACY_MODE (of_nat (o1 div 128)) \<or>
               op = Read_Block_Data (of_nat (128 + o1 mod 128))
                      (of_nat (min c1 (128 - o1 mod 128))))"
    using eeprom_read_primitive_ops by blast
next
  let ?full = "spec_read_ops (current_page d) (spec_page_reads (block_max b) off count)"
  from eeprom_read_loop_correct [OF order_refl assms, of 0 "[]"]
  obtain r buf d' b' where
    loop: "eeprom_read_loop count d b [] off count 0 = Some (r, buf, d', b')"
    and run: "bus_run b b' r"
    and data: "0 \<le> r \<Longrightarrow> buf = map (eeprom b) [off..<off + count]"
    and cache: "page_cache_ok d' b'"
    by auto
  from eeprom_read_loop_ops [OF order_refl assms, of "[]" 0] loop
  obtain ops where dec: "trace b' = trace b @ ops" "ops = take (length ops) ?full"
    "0 \<le> r \<Longrightarrow> ops = ?full"
    by auto
  have iss: "issued b b' = ops"
    using dec(1) by (rule issued_append)
  define ret where "ret = (if r < 0 then r else int count)"
  have sign: "ret < 0 \<longleftrightarrow> r < 0" "ret < 0 \<Longrightarrow> ret = r" "0 \<le> ret \<Longrightarrow> ret = int count"
    by (auto simp: ret_def split: if_splits)
  have res: "eeprom_read count d b off count = Some (ret, buf, d', b')"
    by (simp add: eeprom_read_def loop ret_def)
  from run obtain ops' where ops: "trace b' = trace b @ ops'" "\<forall>op \<in> set ops'. within_page op"
    by (auto simp: bus_run_def)
  have 1: "\<forall>op \<in> set (issued b b'). within_page op"
    using ops by (simp add: issued_append)
  have 2: "0 \<le> ret \<longrightarrow> ret = int count \<and> buf = map (eeprom b) [off..<off + count]"
    using data sign by auto
  have 3: "ret < 0 \<longleftrightarrow> (\<exists>k. length (trace b) \<le> k \<and> k < length (trace b') \<and> fault b k < 0)"
  proof (cases "r < 0")
    case True
    with run have "length (trace b) < length (trace b')" "fault b (length (trace b') - 1) < 0"
      by (simp_all add: bus_run_def)
    then have "length (trace b) \<le> length (trace b') - 1 \<and> length (trace b') - 1 < length (trace b')
                 \<and> fault b (length (trace b') - 1) < 0"
      by linarith
    then show ?thesis using True sign by blast
  next
    case False
    with run have "\<forall>k. length (trace b) \<le> k \<and> k < length (trace b') \<longrightarrow> 0 \<le> fault b k"
      by (simp add: bus_run_def)
    then show ?thesis using False sign by (auto simp: not_less)
  qed
  have 4: "ret < 0 \<longrightarrow> ret = fault b (length (trace b') - 1)"
    using run sign by (auto simp: bus_run_def)
  have 5: "page_cache_ok d' b'" "eeprom b' = eeprom b"
    using run cache by (simp_all add: bus_run_def)
  have 6: "trace b' = trace b @ issued b b'"
    using dec(1) iss by simp
  have 7: "issued b b' = take (length (issued b b')) ?full"
    using dec(2) iss by simp
  have 8: "0 \<le> ret \<longrightarrow> issued b b' = ?full \<and>
             buf = concat (map (spec_chunk_bytes b) (spec_page_reads (block_max b) off count))"
    using dec(3) iss data sign spec_page_reads_flat [OF assms(1,2), of b] by auto
  have 9: "\<forall>k. length (trace b) \<le> k \<and> k + 1 < length (trace b') \<longrightarrow> 0 \<le> fault b k"
  proof (cases "r < 0")
    case True
    with run have "\<forall>k. length (trace b) \<le> k \<and> k < length (trace b') - 1 \<longrightarrow> 0 \<le> fault b k"
      by (simp add: bus_run_def)
    then show ?thesis by (simp add: less_diff_conv)
  next
    case False
    with run have "\<forall>k. length (trace b) \<le> k \<and> k < length (trace b') \<longrightarrow> 0 \<le> fault b k"
      by (simp add: bus_run_def)
    show ?thesis
    proof (intro allI impI)
      fix k
      assume "length (trace b) \<le> k \<and> k + 1 < length (trace b')"
      then have "length (trace b) \<le> k \<and> k < length (trace b')" by simp
      with \<open>\<forall>k. length (trace b) \<le> k \<and> k < length (trace b') \<longrightarrow> 0 \<le> fault b k\<close>
      show "0 \<le> fault b k" by blast
    qed
  qed
  have 10: "0 < count \<longrightarrow> issued b b' \<noteq> []"
  proof (cases "r < 0")
    case True
    with run have "length (trace b) < length (trace b')" by (simp add: bus_run_def)
    then show ?thesis by (simp add: issued_def)
  next
    case False
    then have "issued b b' = ?full" using dec(3) iss by simp
    then show ?thesis using spec_read_ops_nonempty [OF _ assms(2)] by simp
  qed
  show "\<exists>ret buf d' b'. eeprom_read count d b off count = Some (ret, buf, d', b') \<and>
            (\<forall>op \<in> set (issued b b'). within_page op) \<and>
            (0 \<le> ret \<longrightarrow> ret = int count \<and> buf = map (eeprom b) [off..<off + count]) \<and>
            (ret < 0 \<longleftrightarrow> (\<exists>k. length (trace b) \<le> k \<and> k < length (trace b') \<and> fault b k < 0)) \<and>
            (ret < 0 \<longrightarrow> ret = fault b (length (trace b') - 1)) \<and>
            page_cache_ok d' b' \<and> eeprom b' = eeprom b \<and>
            trace b' = trace b @ issued b b' \<and>
            issued b b' = take (length (issued b b')) ?full \<and>
            (0 \<le> ret \<longrightarrow>
               issued b b' = ?full \<and>
               buf = concat (map (spec_chunk_bytes b) (spec_page_reads (block_max b) off count))) \<and>
            (\<forall>k. length (trace b) \<le> k \<and> k + 1 < length (trace b') \<longrightarrow> 0 \<le> fault b k) \<and>
            (0 < count \<longrightarrow> issued b b' \<noteq> [])"
    using res 1 2 3 4 5 6 7 8 9 10 by (intro exI conjI) assumption+
qed

text \<open>
  Reading bytes 120..139 crosses from page 0 into page 1; on the transport that never
  fails the read reports 20, stores the flat memory's bytes 120..139, and has issued a
  select of page 0, a read of 8 bytes at 0xF8, a select of page 1 and a read of 12
  bytes at 0x80.
\<close>

theorem eeprom_read_flat_memory_witness:
  "120 + 20 \<le> (1024 :: nat) \<and> 0 < block_max demo_bus \<and> page_cache_ok demo_data demo_bus \<and>
   (\<exists>buf d' b'. eeprom_read 20 demo_data demo_bus 120 20 = Some (20, buf, d', b') \<and>
      buf = map (eeprom demo_bus) [120..<140] \<and>
      issued demo_bus b' =
        [Write_Byte_Data 11 0, Read_Block_Data 248 8, Write_Byte_Data 11 1, Read_Block_Data 128 12])"
proof -
  have h: "120 + 20 \<le> (1024 :: nat)" "0 < block_max demo_bus" "page_cache_ok demo_data demo_bus"
    by (simp_all add: demo_bus_def demo_data_def page_cache_ok_def hw_page_def)
  have nofault: "\<not> fault demo_bus k < 0" for k
    by (simp add: demo_bus_def)
  have ops: "spec_read_ops (current_page demo_data) (spec_page_reads (block_max demo_bus) 120 20)
               = [Write_Byte_Data 11 0, Read_Block_Data 248 8, Write_Byte_Data 11 1,
                  Read_Block_Data 128 12]"
    by (simp add: demo_data_def demo_bus_def spec_page_reads.simps SPD5118_REG_I2C_LEGACY_MODE_def)
  from eeprom_read_flat_memory [OF h]
  obtain ret buf d' b' where
    "eeprom_read 20 demo_data demo_bus 120 20 = Some (ret, buf, d', b')"
    "0 \<le> ret \<longrightarrow> ret = int 20 \<and> buf = map (eeprom demo_bus) [120..<120 + 20]"
    "ret < 0 \<longleftrightarrow> (\<exists>k. length (trace demo_bus) \<le> k \<and> k < length (trace b') \<and> fault demo_bus k < 0)"
    "0 \<le> ret \<longrightarrow>
       issued demo_bus b' = spec_read_ops (current_page demo_data) (spec_page_reads (block_max demo_bus) 120 20) \<and>
       buf = concat (map (spec_chunk_bytes demo_bus) (spec_page_reads (block_max demo_bus) 120 20))"
    by blast
  with nofault ops have "eeprom_read 20 demo_data demo_bus 120 20 = Some (20, buf, d', b')"
    "buf = map (eeprom demo_bus) [120..<140]"
    "issued demo_bus b' =
        [Write_Byte_Data 11 0, Read_Block_Data 248 8, Write_Byte_Data 11 1, Read_Block_Data 128 12]"
    by auto
  with h show ?thesis by blast
qed

text \<open>
  The page cache is coherent from the start: \<open>spd5118_probe\<close> sets \<open>current_page\<close> to -1,
  and the attribute writes leave the page-select register alone.
\<close>

lemma page_cache_ok_probe: "page_cache_ok (d\<lparr>current_page := - 1\<rparr>) b"
  by (simp add: page_cache_ok_def)

lemma page_cache_ok_write:
  assumes "page_cache_ok d b"
  shows "page_cache_ok d (snd (spd5118_write p b type attr channel val))"
proof -
  have "page_reg (snd (spd5118_write p b type attr channel val)) = page_reg b"
    by (cases attr)
      (simp_all add: spd5118_write_def spd5118_write_temp_def spd5118_clear_alarm_def
         i2c_smbus_write_byte_data_def i2c_smbus_write_word_data_def smbus_xfer_def
         SPD5118_REG_TEMP_CLR_def SPD5118_REG_I2C_LEGACY_MODE_def)
  then have "hw_page (snd (spd5118_write p b type attr channel val)) = hw_page b"
    by (simp add: hw_page_def)
  with assms show ?thesis by (simp add: page_cache_ok_def)
qed

section \<open>Page selection\<close>

text \<open>
  C4. For every call of \<open>spd5118_eeprom_read\<close>: if the requested page \<open>offset >> 7\<close> is
  the cached \<open>current_page\<close>, no page-select write is issued, only the block read; if it
  differs, exactly one page-select write is issued, before the block read; when that
  write fails its error is returned, no block read follows, and \<open>current_page\<close> and the
  chip's page are unchanged; when it succeeds \<open>current_page\<close> becomes the requested page.
\<close>

theorem page_select_once:
  "case spd5118_eeprom_read d b offset count of
     ((ret, bytes), d', b') \<Rightarrow>
       let page = int (offset div 128);
           sel = Write_Byte_Data SPD5118_REG_I2C_LEGACY_MODE (word_of_int page);
           select_fails = fault b (length (trace b)) < 0
       in (page = current_page d \<longrightarrow>
             d' = d \<and> (\<exists>c n. issued b b' = [Read_Block_Data c n])) \<and>
          (page \<noteq> current_page d \<and> select_fails \<longrightarrow>
             issued b b' = [sel] \<and> ret = fault b (length (trace b)) \<and> d' = d \<and>
             page_reg b' = page_reg b) \<and>
          (page \<noteq> current_page d \<and> \<not> select_fails \<longrightarrow>
             (\<exists>c n. issued b b' = [sel, Read_Block_Data c n]) \<and>
             d' = d\<lparr>current_page := page\<rparr> \<and> page_reg b' = word_of_int page)"
proof -
  define page where "page = int (offset div 128)"
  define cmd :: u8 where "cmd = of_nat (SPD5118_EEPROM_BASE + offset mod 128)"
  define len :: u8 where
    "len = of_nat (if SPD5118_PAGE_SIZE < (offset mod 128 + count) mod 2 ^ 64
                   then SPD5118_PAGE_SIZE - offset mod 128 else count)"
  define sel where "sel = Write_Byte_Data SPD5118_REG_I2C_LEGACY_MODE (word_of_int page)"
  have unfold: "spd5118_eeprom_read d b offset count =
      (case spd5118_set_current_page d b page of (status, d1, b1) \<Rightarrow>
         if status \<noteq> 0 then ((status, []), d1, b1)
         else case i2c_smbus_read_i2c_block_data_or_emulated b1 cmd len of
                (r, b2) \<Rightarrow> (r, d1, b2))"
    by (simp only: spd5118_eeprom_read_def Let_def SPD5118_PAGE_SHIFT_def power_numeral_7
          page_def [symmetric] cmd_def [symmetric] len_def [symmetric])
  have goal: "(case spd5118_eeprom_read d b offset count of
     ((ret, bytes), d', b') \<Rightarrow>
          (page = current_page d \<longrightarrow>
             d' = d \<and> (\<exists>c n. issued b b' = [Read_Block_Data c n])) \<and>
          (page \<noteq> current_page d \<and> fault b (length (trace b)) < 0 \<longrightarrow>
             issued b b' = [sel] \<and> ret = fault b (length (trace b)) \<and> d' = d \<and>
             page_reg b' = page_reg b) \<and>
          (page \<noteq> current_page d \<and> \<not> fault b (length (trace b)) < 0 \<longrightarrow>
             (\<exists>c n. issued b b' = [sel, Read_Block_Data c n]) \<and>
             d' = d\<lparr>current_page := page\<rparr> \<and> page_reg b' = word_of_int page))"
  proof (cases "page = current_page d")
    case same: True
    show ?thesis
      by (cases "fault b (length (trace b)) < 0")
        (simp_all add: unfold set_current_page_same [OF refl] block_read_fail block_read_done
           issued_def same)
  next
    case differs: False
    show ?thesis
    proof (cases "fault b (length (trace b)) < 0")
      case True
      then show ?thesis
        by (simp add: unfold differs set_current_page_fail [OF differs True] issued_def sel_def)
    next
      case False
      let ?b1 = "b\<lparr>trace := trace b @ [Write_Byte_Data SPD5118_REG_I2C_LEGACY_MODE (word_of_int page)],
                   page_reg := word_of_int page\<rparr>"
      show ?thesis
        by (cases "fault ?b1 (length (trace ?b1)) < 0")
          (simp_all add: unfold differs False set_current_page_done [OF differs False]
             block_read_fail block_read_done issued_def sel_def)
    qed
  qed
  then show ?thesis
    by (simp only: Let_def page_def sel_def)
qed


theorem page_select_once_witness:
  "int (389 div 128) = current_page demo_data \<and>
   (\<exists>c n. issued demo_bus (snd (snd (spd5118_eeprom_read demo_data demo_bus 389 4)))
             = [Read_Block_Data c n]) \<and>
   int (640 div 128) \<noteq> current_page demo_data \<and>
   \<not> fault demo_bus (length (trace demo_bus)) < 0 \<and>
   fst (snd (spd5118_eeprom_read demo_data demo_bus 640 4)) = demo_data\<lparr>current_page := 5\<rparr> \<and>
   fault faulty_bus (length (trace faulty_bus)) < 0 \<and>
   issued faulty_bus (snd (snd (spd5118_eeprom_read demo_data faulty_bus 640 4)))
     = [Write_Byte_Data SPD5118_REG_I2C_LEGACY_MODE 5] \<and>
   fst (fst (spd5118_eeprom_read demo_data faulty_bus 640 4)) = - 5 \<and>
   fst (snd (spd5118_eeprom_read demo_data faulty_bus 640 4)) = demo_data"
proof -
  have h: "int (389 div 128) = current_page demo_data"
    "int (640 div 128) \<noteq> current_page demo_data"
    "\<not> fault demo_bus (length (trace demo_bus)) < 0"
    "fault faulty_bus (length (trace faulty_bus)) < 0"
    "fault faulty_bus (length (trace faulty_bus)) = - 5"
    by (simp_all add: demo_data_def demo_bus_def faulty_bus_def)
  show ?thesis
    using page_select_once [where d = demo_data and b = demo_bus and offset = 389 and count = 4]
      page_select_once [where d = demo_data and b = demo_bus and offset = 640 and count = 4]
      page_select_once [where d = demo_data and b = faulty_bus and offset = 640 and count = 4] h
    by (simp add: case_prod_unfold Let_def)
qed

section \<open>Attribute writes\<close>

lemma write_temp_disabled:
  "\<not> enable_temp_write p \<Longrightarrow> spd5118_write_temp p b attr val = (- EOPNOTSUPP, b)"
  by (simp add: spd5118_write_temp_def)

lemma issued_none: "issued b b = []"
  by (simp add: issued_def)

text \<open>
  C6. With \<open>enable_temp_write\<close> false, \<open>spd5118_write_temp\<close> returns \<open>-EOPNOTSUPP\<close> and
  leaves the bus as it was, for every attribute and value; so does \<open>spd5118_write\<close> for
  the four thresholds max, min, crit and lcrit: no transaction is issued.
\<close>

theorem threshold_write_disabled:
  assumes "\<not> enable_temp_write p"
  shows "spd5118_write_temp p b attr val = (- EOPNOTSUPP, b) \<and>
         (attr = hwmon_temp_max \<or> attr = hwmon_temp_min \<or> attr = hwmon_temp_crit
            \<or> attr = hwmon_temp_lcrit \<longrightarrow>
            spd5118_write p b hwmon_temp attr channel val = (- EOPNOTSUPP, b) \<and>
            issued b (snd (spd5118_write p b hwmon_temp attr channel val)) = [])"
  using assms by (auto simp: spd5118_write_def write_temp_disabled issued_none)

theorem threshold_write_disabled_witness:
  "\<not> enable_temp_write \<lparr>enable_temp_write = False, enable_alarm_write = True\<rparr> \<and>
   spd5118_write \<lparr>enable_temp_write = False, enable_alarm_write = True\<rparr> demo_bus hwmon_temp
     hwmon_temp_crit 0 85000 = (- 95, demo_bus)"
  using threshold_write_disabled
    [where p = "\<lparr>enable_temp_write = False, enable_alarm_write = True\<rparr>"
       and attr = hwmon_temp_crit and b = demo_bus and val = 85000 and channel = 0]
  by (simp add: EOPNOTSUPP_def)

lemma alarm_write_nonzero:
  assumes "attr = hwmon_temp_max_alarm \<or> attr = hwmon_temp_min_alarm
             \<or> attr = hwmon_temp_crit_alarm \<or> attr = hwmon_temp_lcrit_alarm"
    and "val \<noteq> 0"
  shows "spd5118_write p b hwmon_temp attr channel val = (- EINVAL, b)"
  using assms by (auto simp: spd5118_write_def)

text \<open>
  C10. A write of a nonzero value to an alarm attribute returns \<open>-EINVAL\<close> and issues no
  bus transaction, whatever the module parameters are; with \<open>enable_alarm_write\<close> false
  a write of zero returns \<open>-EOPNOTSUPP\<close>, a different code, so the value check comes
  first.
\<close>

theorem alarm_write_nonzero_precedence:
  assumes "attr = hwmon_temp_max_alarm \<or> attr = hwmon_temp_min_alarm
             \<or> attr = hwmon_temp_crit_alarm \<or> attr = hwmon_temp_lcrit_alarm"
    and "val \<noteq> 0"
  shows "spd5118_write p b hwmon_temp attr channel val = (- EINVAL, b) \<and>
         issued b (snd (spd5118_write p b hwmon_temp attr channel val)) = [] \<and>
         (\<not> enable_alarm_write p \<longrightarrow>
            spd5118_write p b hwmon_temp attr channel 0 = (- EOPNOTSUPP, b)) \<and>
         - EINVAL \<noteq> - EOPNOTSUPP"
proof -
  have "spd5118_write p b hwmon_temp attr channel 0 = (- EOPNOTSUPP, b)"
    if "\<not> enable_alarm_write p"
    using assms(1) that by (auto simp: spd5118_write_def spd5118_clear_alarm_def)
  then show ?thesis
    using alarm_write_nonzero [OF assms] by (simp add: issued_none EINVAL_def EOPNOTSUPP_def)
qed

theorem alarm_write_nonzero_precedence_witness:
  "(1 :: s64) \<noteq> 0 \<and>
   \<not> enable_alarm_write \<lparr>enable_temp_write = True, enable_alarm_write = False\<rparr> \<and>
   spd5118_write \<lparr>enable_temp_write = True, enable_alarm_write = False\<rparr> demo_bus hwmon_temp
     hwmon_temp_min_alarm 0 1 = (- 22, demo_bus) \<and>
   spd5118_write \<lparr>enable_temp_write = True, enable_alarm_write = False\<rparr> demo_bus hwmon_temp
     hwmon_temp_min_alarm 0 0 = (- 95, demo_bus)"
  using alarm_write_nonzero_precedence
    [where attr = hwmon_temp_min_alarm and val = 1 and b = demo_bus and channel = 0
       and p = "\<lparr>enable_temp_write = True, enable_alarm_write = False\<rparr>"]
  by (simp add: EINVAL_def EOPNOTSUPP_def)

text \<open>
  C5 as stated ("a write with value zero succeeds") fails when the transport does: with
  \<open>enable_alarm_write\<close> true and the value 0, the write of the max alarm on a
  transport that fails issues its one bus write and returns the transport's error -5
  (\<open>-EIO\<close>), as \<open>spd5118_clear_alarm\<close> returns what the bus write returned.
\<close>

theorem alarm_clear_transport_error:
  "enable_alarm_write \<lparr>enable_temp_write = False, enable_alarm_write = True\<rparr> \<and>
   spd5118_write \<lparr>enable_temp_write = False, enable_alarm_write = True\<rparr> faulty_bus hwmon_temp
     hwmon_temp_max_alarm 0 0
     = (- 5, faulty_bus\<lparr>trace := [Write_Byte_Data SPD5118_REG_TEMP_CLR 1]\<rparr>)"
  by (simp add: spd5118_write_def spd5118_clear_alarm_def i2c_smbus_write_byte_data_def
        smbus_xfer_def faulty_bus_def SPD5118_TEMP_CLR_HIGH_def SPD5118_REG_TEMP_CLR_def
        SPD5118_REG_I2C_LEGACY_MODE_def)

text \<open>
  C5 (as amended). For every alarm attribute, a write of a nonzero value fails with
  \<open>-EINVAL\<close>; a write of zero with \<open>enable_alarm_write\<close> true issues exactly one bus
  write, to the clear register, whose value has only that alarm's bit set (bit 0 for
  max, 1 for min, 2 for crit, 3 for lcrit), and returns the result of that write: 0 when
  the transfer succeeds, the transport's error when it fails.
\<close>

theorem alarm_write_contract:
  assumes "attr = hwmon_temp_max_alarm \<or> attr = hwmon_temp_min_alarm
             \<or> attr = hwmon_temp_crit_alarm \<or> attr = hwmon_temp_lcrit_alarm"
  shows "(val \<noteq> 0 \<longrightarrow> spd5118_write p b hwmon_temp attr channel val = (- EINVAL, b)) \<and>
         (val = 0 \<and> enable_alarm_write p \<longrightarrow>
            (case spd5118_write p b hwmon_temp attr channel val of
               (ret, b') \<Rightarrow>
                 issued b b' =
                   [Write_Byte_Data SPD5118_REG_TEMP_CLR
                      (case attr of hwmon_temp_max_alarm \<Rightarrow> 1 | hwmon_temp_min_alarm \<Rightarrow> 2
                         | hwmon_temp_crit_alarm \<Rightarrow> 4 | _ \<Rightarrow> 8)] \<and>
                 ret = (if fault b (length (trace b)) < 0 then fault b (length (trace b)) else 0)))"
proof (intro conjI impI)
  show "spd5118_write p b hwmon_temp attr channel val = (- EINVAL, b)" if "val \<noteq> 0"
    using assms that by (rule alarm_write_nonzero)
  show "case spd5118_write p b hwmon_temp attr channel val of
               (ret, b') \<Rightarrow>
                 issued b b' =
                   [Write_Byte_Data SPD5118_REG_TEMP_CLR
                      (case attr of hwmon_temp_max_alarm \<Rightarrow> 1 | hwmon_temp_min_alarm \<Rightarrow> 2
                         | hwmon_temp_crit_alarm \<Rightarrow> 4 | _ \<Rightarrow> 8)] \<and>
                 ret = (if fault b (length (trace b)) < 0 then fault b (length (trace b)) else 0)"
    if "val = 0 \<and> enable_alarm_write p"
    using assms that
    by (auto simp: spd5118_write_def spd5118_clear_alarm_def i2c_smbus_write_byte_data_def
          smbus_xfer_def issued_def SPD5118_TEMP_CLR_HIGH_def SPD5118_TEMP_CLR_LOW_def
          SPD5118_TEMP_CLR_CRIT_def SPD5118_TEMP_CLR_LCRIT_def)
qed

theorem alarm_write_contract_witness:
  "(1 :: s64) \<noteq> 0 \<and>
   spd5118_write \<lparr>enable_temp_write = False, enable_alarm_write = True\<rparr> demo_bus hwmon_temp
     hwmon_temp_crit_alarm 0 1 = (- 22, demo_bus) \<and>
   enable_alarm_write \<lparr>enable_temp_write = False, enable_alarm_write = True\<rparr> \<and>
   issued demo_bus (snd (spd5118_write \<lparr>enable_temp_write = False, enable_alarm_write = True\<rparr>
     demo_bus hwmon_temp hwmon_temp_crit_alarm 0 0)) = [Write_Byte_Data SPD5118_REG_TEMP_CLR 4] \<and>
   fst (spd5118_write \<lparr>enable_temp_write = False, enable_alarm_write = True\<rparr>
     demo_bus hwmon_temp hwmon_temp_crit_alarm 0 0) = 0"
proof -
  have h: "\<not> fault demo_bus (length (trace demo_bus)) < 0"
    by (simp add: demo_bus_def)
  show ?thesis
    using alarm_write_contract
        [where attr = hwmon_temp_crit_alarm and val = 1 and b = demo_bus and channel = 0
           and p = "\<lparr>enable_temp_write = False, enable_alarm_write = True\<rparr>"]
      alarm_write_contract
        [where attr = hwmon_temp_crit_alarm and val = 0 and b = demo_bus and channel = 0
           and p = "\<lparr>enable_temp_write = False, enable_alarm_write = True\<rparr>"] h
    by (simp add: case_prod_unfold EINVAL_def)
qed

section \<open>Mutual exclusion on the bus\<close>

lemma in_section_iff: "in_section es \<longleftrightarrow> (\<exists>ops. es = map Bus ops @ [Unlock])"
proof (induction es rule: in_section.induct)
  case 1
  show ?case by simp
next
  case (2 es)
  show ?case
  proof
    assume "in_section (Unlock # es)"
    then have "Unlock # es = map Bus [] @ [Unlock]" by simp
    then show "\<exists>ops. Unlock # es = map Bus ops @ [Unlock]" by blast
  next
    assume "\<exists>ops. Unlock # es = map Bus ops @ [Unlock]"
    then obtain ops where e: "Unlock # es = map Bus ops @ [Unlock]" by blast
    then have "ops = []" by (cases ops) auto
    with e show "in_section (Unlock # es)" by simp
  qed
next
  case (3 op es)
  show ?case
  proof
    assume "in_section (Bus op # es)"
    with 3 obtain ops where "es = map Bus ops @ [Unlock]" by auto
    then have "Bus op # es = map Bus (op # ops) @ [Unlock]" by simp
    then show "\<exists>ops. Bus op # es = map Bus ops @ [Unlock]" by blast
  next
    assume "\<exists>ops. Bus op # es = map Bus ops @ [Unlock]"
    then obtain ops where e: "Bus op # es = map Bus ops @ [Unlock]" by blast
    then obtain ops' where "ops = op # ops'" "es = map Bus ops' @ [Unlock]"
      by (cases ops) auto
    with 3 show "in_section (Bus op # es)" by auto
  qed
next
  case (4 es)
  show ?case
  proof
    assume "\<exists>ops. Lock # es = map Bus ops @ [Unlock]"
    then obtain ops where e: "Lock # es = map Bus ops @ [Unlock]" by blast
    then show "in_section (Lock # es)" by (cases ops) auto
  qed simp
qed

lemma well_locked_iff:
  "well_locked ev \<longleftrightarrow> ev = [] \<or> (\<exists>ops. ev = Lock # map Bus ops @ [Unlock])"
  by (cases ev rule: well_locked.cases) (simp_all add: in_section_iff)

lemma locked_call_well_locked: "locked_call b b' ev \<Longrightarrow> well_locked ev"
  by (auto simp: locked_call_def well_locked_iff)

lemma events_of_Cons:
  "events_of t ((t', e) # s) = (if t' = t then e # events_of t s else events_of t s)"
  by (simp add: events_of_def)

lemma events_of_Nil: "events_of t [] = []"
  by (simp add: events_of_def)

text \<open>A schedule in which one call has no event is the other call's events.\<close>

lemma only_other:
  assumes "events_of t s = []"
  shows "s = map (Pair (\<not> t)) (events_of (\<not> t) s)"
  using assms
proof (induction s)
  case Nil
  show ?case by (simp add: events_of_Nil)
next
  case (Cons x s)
  obtain t' e where x: "x = (t', e)" by (cases x)
  with Cons.prems have "t' \<noteq> t" "events_of t s = []"
    by (auto simp: events_of_Cons split: if_splits)
  with Cons.IH x show ?case by (auto simp: events_of_Cons)
qed

text \<open>
  While call \<open>t\<close> holds the mutex, the schedule runs the rest of its section before
  any event of the other call, whose first event is its \<open>Lock\<close>.
\<close>

lemma section_first:
  assumes "in_section (events_of t s)" "well_locked (events_of (\<not> t) s)" "mutex_ok (Some t) s"
  shows "s = map (Pair t) (events_of t s) @ map (Pair (\<not> t)) (events_of (\<not> t) s)"
  using assms
proof (induction s)
  case Nil
  then show ?case by (simp add: events_of_Nil)
next
  case (Cons x s)
  obtain t' e where x: "x = (t', e)" by (cases x)
  show ?case
  proof (cases "t' = t")
    case True
    then have own: "events_of t (x # s) = e # events_of t s"
      and other: "events_of (\<not> t) (x # s) = events_of (\<not> t) s"
      by (auto simp: x events_of_Cons)
    show ?thesis
    proof (cases e)
      case Lock
      with Cons.prems(1) own show ?thesis by simp
    next
      case Unlock
      with Cons.prems(1) own have "events_of t s = []" by simp
      then have "s = map (Pair (\<not> t)) (events_of (\<not> t) s)" by (rule only_other)
      with own other Unlock True x \<open>events_of t s = []\<close> show ?thesis by simp
    next
      case (Bus op)
      with Cons.prems own other True x
      have "in_section (events_of t s)" "well_locked (events_of (\<not> t) s)" "mutex_ok (Some t) s"
        by simp_all
      then have "s = map (Pair t) (events_of t s) @ map (Pair (\<not> t)) (events_of (\<not> t) s)"
        by (rule Cons.IH)
      with own other True x show ?thesis by simp
    qed
  next
    case False
    then have "events_of (\<not> t) (x # s) = e # events_of (\<not> t) s"
      by (auto simp: x events_of_Cons)
    with Cons.prems(2) have "e = Lock"
      by (cases e) simp_all
    with Cons.prems(3) x show ?thesis by simp
  qed
qed

lemma mutex_serial:
  assumes "well_locked (events_of True s)" "well_locked (events_of False s)" "mutex_ok None s"
  shows "serial (events_of True s) (events_of False s) s"
proof (cases s)
  case Nil
  then show ?thesis by (simp add: serial_def events_of_Nil)
next
  case (Cons x s')
  obtain t e where x: "x = (t, e)" by (cases x)
  have own: "events_of t s = e # events_of t s'"
    and other: "events_of (\<not> t) s = events_of (\<not> t) s'"
    by (auto simp: Cons x events_of_Cons)
  have wl: "well_locked (events_of t s)" "well_locked (events_of (\<not> t) s)"
    using assms(1,2) by (cases t; simp)+
  from wl(1) own have e: "e = Lock" and sec: "in_section (events_of t s')"
    by (cases e; simp)+
  from assms(3) have "mutex_ok (Some t) s'"
    by (simp add: Cons x e)
  with sec wl(2) other
  have "s' = map (Pair t) (events_of t s') @ map (Pair (\<not> t)) (events_of (\<not> t) s')"
    by (intro section_first) simp_all
  then have "s = map (Pair t) (events_of t s) @ map (Pair (\<not> t)) (events_of (\<not> t) s)"
    using own other by (simp add: Cons x)
  then show ?thesis
    by (cases t) (simp_all add: serial_def)
qed


lemma read_data_nonneg: "\<not> (r :: int) mod 256 < 0" "\<not> (r :: int) mod 65536 < 0"
  by (simp_all add: not_less)

lemma read_temp_locked:
  "case spd5118_read_temp_ev b attr of ((ret, val, b'), ev) \<Rightarrow> locked_call b b' ev"
  by (cases "temp_in_reg_of_attr attr")
    (simp_all add: spd5118_read_temp_ev_def i2c_smbus_read_word_data_def smbus_xfer_def Let_def
       locked_call_def issued_def mutex_lock_def mutex_unlock_def bus_events_def read_data_nonneg)

lemma read_alarm_locked:
  "case spd5118_read_alarm_ev b attr of ((ret, val, b'), ev) \<Rightarrow> locked_call b b' ev"
  by (cases "status_mask_of_attr attr")
    (simp_all add: spd5118_read_alarm_ev_def i2c_smbus_read_byte_data_def smbus_xfer_def Let_def
       locked_call_def issued_def mutex_lock_def mutex_unlock_def bus_events_def read_data_nonneg)

lemma write_temp_locked:
  "case spd5118_write_temp_ev p b attr val of ((ret, b'), ev) \<Rightarrow> locked_call b b' ev"
  by (cases "temp_reg_of_attr attr")
    (simp_all add: spd5118_write_temp_ev_def i2c_smbus_write_word_data_def smbus_xfer_def Let_def
       locked_call_def issued_def mutex_lock_def mutex_unlock_def bus_events_def)

lemma clear_alarm_locked:
  "case spd5118_clear_alarm_ev p b attr of ((ret, b'), ev) \<Rightarrow> locked_call b b' ev"
  by (cases "clr_bit_of_attr attr")
    (simp_all add: spd5118_clear_alarm_ev_def i2c_smbus_write_byte_data_def smbus_xfer_def Let_def
       locked_call_def issued_def mutex_lock_def mutex_unlock_def bus_events_def)

lemma write_temp_ev_result:
  "fst (spd5118_write_temp_ev p b attr val) = spd5118_write_temp p b attr val"
  by (cases "temp_reg_of_attr attr")
    (simp_all add: spd5118_write_temp_ev_def spd5118_write_temp_def Let_def case_prod_unfold)

lemma clear_alarm_ev_result:
  "fst (spd5118_clear_alarm_ev p b attr) = spd5118_clear_alarm p b attr"
  by (cases "clr_bit_of_attr attr")
    (simp_all add: spd5118_clear_alarm_ev_def spd5118_clear_alarm_def Let_def case_prod_unfold)

lemma eeprom_read_ev_result:
  "map_option fst (eeprom_read_ev fuel d b off count) = eeprom_read fuel d b off count"
  by (simp add: eeprom_read_ev_def eeprom_read_def Let_def split: option.splits)

text \<open>Every call only adds to the trace.\<close>

lemma eeprom_read_primitive_extends:
  "\<exists>ops. trace (snd (snd (spd5118_eeprom_read d b off count))) = trace b @ ops"
  by (simp add: spd5118_eeprom_read_def spd5118_set_current_page_def
        i2c_smbus_write_byte_data_def i2c_smbus_read_i2c_block_data_or_emulated_def
        smbus_xfer_def Let_def)

lemma eeprom_read_loop_extends:
  assumes "eeprom_read_loop fuel d b buf off count ret = Some (r, buf', d', b')"
  shows "\<exists>ops. trace b' = trace b @ ops"
  using assms
proof (induction fuel arbitrary: d b buf off count ret)
  case 0
  then show ?case by (simp add: eeprom_read_loop.simps split: if_splits)
next
  case (Suc fuel)
  show ?case
  proof (cases "count = 0")
    case True
    with Suc.prems show ?thesis by (simp add: eeprom_read_loop_stop)
  next
    case False
    then have pos: "0 < count" by simp
    obtain r1 bytes d1 b1 where
      step: "spd5118_eeprom_read d b (off mod 2 ^ 32) count = ((r1, bytes), d1, b1)"
      by (metis prod.exhaust)
    from eeprom_read_primitive_extends [of d b "off mod 2 ^ 32" count] step
    obtain ops1 where ops1: "trace b1 = trace b @ ops1" by auto
    note unroll = eeprom_read_loop_step [OF pos step]
    show ?thesis
    proof (cases "r1 < 0")
      case True
      with Suc.prems ops1 show ?thesis by (simp add: unroll)
    next
      case False
      with Suc.prems have "eeprom_read_loop fuel d1 b1 (buf @ bytes) (off + nat r1)
          ((count + 2 ^ 64 - nat r1) mod 2 ^ 64) r1 = Some (r, buf', d', b')"
        by (simp add: unroll)
      from Suc.IH [OF this] obtain ops2 where "trace b' = trace b1 @ ops2" by blast
      with ops1 show ?thesis by simp
    qed
  qed
qed

lemma eeprom_read_locked:
  assumes "eeprom_read_ev fuel d b off count = Some ((ret, buf, d', b'), ev)"
  shows "locked_call b b' ev"
proof -
  from assms obtain r where
    loop: "eeprom_read_loop fuel d b [] off count 0 = Some (r, buf, d', b')"
    and ev: "ev = Lock # map Bus (issued b b') @ [Unlock]"
    by (auto simp: eeprom_read_ev_def Let_def mutex_lock_def mutex_unlock_def bus_events_def
          split: option.splits)
  from eeprom_read_loop_extends [OF loop] obtain ops where "trace b' = trace b @ ops" by blast
  then have "trace b' = trace b @ issued b b'" by (simp add: issued_def)
  with ev show ?thesis by (simp add: locked_call_def)
qed

text \<open>The bulk read with events returns whenever the bulk read does.\<close>

lemma eeprom_read_ev_returns:
  assumes "off + count \<le> 1024" "0 < block_max b" "page_cache_ok d b"
  shows "\<exists>res ev. eeprom_read_ev count d b off count = Some (res, ev)"
proof -
  from eeprom_read_loop_correct [OF order_refl assms, of 0 "[]"]
  obtain r buf d' b' where "eeprom_read_loop count d b [] off count 0 = Some (r, buf, d', b')"
    by auto
  then show ?thesis by (simp add: eeprom_read_ev_def Let_def)
qed

text \<open>
  C9. Every call that talks to the bus (temperature read and write, alarm read and
  clear, bulk EEPROM read with its page selects and window reads) either returns before
  taking the mutex, having issued nothing, or takes the mutex, issues all of its bus
  transactions, and releases it, on every path, error paths included. So when a
  temperature read and a bulk read run concurrently, every schedule of their events
  that respects the mutex is serial: all events of one call come before all events of
  the other, and their bus transactions never interleave.
\<close>

theorem bus_calls_locked_and_serial:
  assumes "spd5118_read_temp_ev b1 attr = ((ret1, val1, b1'), ev1)"
    and "eeprom_read_ev fuel d b2 off count = Some ((ret2, buf2, d2', b2'), ev2)"
    and "events_of True s = ev1" "events_of False s = ev2" "mutex_ok None s"
  shows "locked_call b1 b1' ev1 \<and> locked_call b2 b2' ev2 \<and>
         (case spd5118_write_temp_ev p3 b3 attr3 val3 of ((ret, b'), ev) \<Rightarrow> locked_call b3 b' ev) \<and>
         (case spd5118_read_alarm_ev b4 attr4 of ((ret, val, b'), ev) \<Rightarrow> locked_call b4 b' ev) \<and>
         (case spd5118_clear_alarm_ev p5 b5 attr5 of ((ret, b'), ev) \<Rightarrow> locked_call b5 b' ev) \<and>
         serial ev1 ev2 s"
proof -
  have 1: "locked_call b1 b1' ev1"
    using read_temp_locked [of b1 attr] assms(1) by simp
  have 2: "locked_call b2 b2' ev2"
    using assms(2) by (rule eeprom_read_locked)
  have "serial (events_of True s) (events_of False s) s"
    using 1 2 assms(3-5) by (intro mutex_serial) (simp_all add: locked_call_well_locked)
  then have 3: "serial ev1 ev2 s"
    using assms(3,4) by simp
  show ?thesis
    using 1 2 3 write_temp_locked read_alarm_locked clear_alarm_locked by (intro conjI) assumption+
qed


text \<open>
  A temperature read on the transport that never fails, and a bulk read of page 5 on
  the transport that fails: the bulk read's page select fails with -5 and the mutex is
  released; the schedule that runs the bulk read first respects the mutex and is serial.
\<close>

theorem bus_calls_locked_and_serial_witness:
  "spd5118_read_temp_ev demo_bus hwmon_temp_input
     = ((0, Some 0, demo_bus\<lparr>trace := [Read_Word_Data 0x31]\<rparr>),
        [Lock, Bus (Read_Word_Data 0x31), Unlock]) \<and>
   eeprom_read_ev 4 demo_data faulty_bus 640 4
     = Some ((- 5, [], demo_data, faulty_bus\<lparr>trace := [Write_Byte_Data 0x0B 5]\<rparr>),
             [Lock, Bus (Write_Byte_Data 0x0B 5), Unlock]) \<and>
   mutex_ok None
     [(False, Lock), (False, Bus (Write_Byte_Data 0x0B 5)), (False, Unlock),
      (True, Lock), (True, Bus (Read_Word_Data 0x31)), (True, Unlock)] \<and>
   locked_call faulty_bus (faulty_bus\<lparr>trace := [Write_Byte_Data 0x0B 5]\<rparr>)
     [Lock, Bus (Write_Byte_Data 0x0B 5), Unlock] \<and>
   serial [Lock, Bus (Read_Word_Data 0x31), Unlock] [Lock, Bus (Write_Byte_Data 0x0B 5), Unlock]
     [(False, Lock), (False, Bus (Write_Byte_Data 0x0B 5)), (False, Unlock),
      (True, Lock), (True, Bus (Read_Word_Data 0x31)), (True, Unlock)]"
proof -
  let ?s = "[(False, Lock), (False, Bus (Write_Byte_Data 0x0B 5)), (False, Unlock),
             (True, Lock), (True, Bus (Read_Word_Data 0x31)), (True, Unlock)]"
  have zero: "spd5118_temp_from_reg 0 = 0"
    by code_simp
  have t: "spd5118_read_temp_ev demo_bus hwmon_temp_input
     = ((0, Some 0, demo_bus\<lparr>trace := [Read_Word_Data 0x31]\<rparr>),
        [Lock, Bus (Read_Word_Data 0x31), Unlock])"
    by (simp add: spd5118_read_temp_ev_def i2c_smbus_read_word_data_def smbus_xfer_def
          demo_bus_def mutex_lock_def mutex_unlock_def bus_events_def issued_def Let_def
          SPD5118_REG_TEMP_def zero)
  have e: "eeprom_read_ev 4 demo_data faulty_bus 640 4
     = Some ((- 5, [], demo_data, faulty_bus\<lparr>trace := [Write_Byte_Data 0x0B 5]\<rparr>),
             [Lock, Bus (Write_Byte_Data 0x0B 5), Unlock])"
    by (simp add: eeprom_read_ev_def eeprom_read_loop.simps spd5118_eeprom_read_def
          spd5118_set_current_page_def i2c_smbus_write_byte_data_def smbus_xfer_def
          SPD5118_PAGE_SHIFT_def SPD5118_REG_I2C_LEGACY_MODE_def Let_def demo_data_def
          faulty_bus_def mutex_lock_def mutex_unlock_def bus_events_def issued_def)
  have s: "events_of True ?s = [Lock, Bus (Read_Word_Data 0x31), Unlock]"
    "events_of False ?s = [Lock, Bus (Write_Byte_Data 0x0B 5), Unlock]"
    "mutex_ok None ?s"
    by (simp_all add: events_of_def)
  show ?thesis
    using bus_calls_locked_and_serial [OF t e s] t e s(3) by simp
qed

end
